theory Spec2Isabelle
  imports Complex_Main
begin

section \<open>The rating model: player.h and player.cpp\<close>

text \<open>
  The members \<^verbatim>\<open>rating_\<close> and \<^verbatim>\<open>rd_\<close> are C++ \<^verbatim>\<open>float\<close>s holding finite values;
  a finite value is a \<^typ>\<open>real\<close>. The arithmetic of \<^verbatim>\<open>compute_score_var\<close>, whose
  result decides which index the ranker selects, is modelled operation by operation in
  IEEE 754 single precision (section on single-precision arithmetic below). The
  arithmetic inside \<^verbatim>\<open>update\<close> is written over the reals: its results are handed
  to the two setters and are never stored or compared, so their rounding reaches
  neither the state nor the control flow.
  The C++ type \<^verbatim>\<open>int\<close> is modelled by \<^typ>\<open>int\<close> and \<^verbatim>\<open>size_t\<close> by \<^typ>\<open>nat\<close>; the
  collections are taken to hold fewer than \<open>2^31\<close> elements, so that an index fits both.
  A data member \<^verbatim>\<open>x_\<close> of the source is the record field \<open>x_m\<close>, since an Isabelle
  name cannot end in an underscore; a parameter \<^verbatim>\<open>id\<close> is written \<open>id'\<close>.
  A \<^verbatim>\<open>void\<close> member function that mutates the object is a function from the object to
  the updated object; a \<^verbatim>\<open>const\<close> member function is a function of the object.
\<close>

record Player =
  id_m :: int
  rating_m :: real
  rd_m :: real
  num_comps_m :: int

text \<open>\<^verbatim>\<open>const float Q = log(10) / 400;\<close>\<close>

definition Q :: real where
  "Q = ln 10 / 400"

text \<open>\<^verbatim>\<open>Player(int id, float rating=0, float rd=350)\<close>: the counter starts at 0.\<close>

definition Player_ctor :: "int \<Rightarrow> real \<Rightarrow> real \<Rightarrow> Player" where
  "Player_ctor id' rating rd = \<lparr>id_m = id', rating_m = rating, rd_m = rd, num_comps_m = 0\<rparr>"

definition get_rating :: "Player \<Rightarrow> real" where
  "get_rating p = rating_m p"

definition get_rd :: "Player \<Rightarrow> real" where
  "get_rd p = rd_m p"


text \<open>
  \<^verbatim>\<open>void Player::set_rating(float rating) { rating = rating; }\<close> assigns the parameter
  to itself; the member \<^verbatim>\<open>rating_\<close> is not written. The same holds for
  \<^verbatim>\<open>set_rd\<close>. Both leave the object as it is.
\<close>

definition set_rating :: "Player \<Rightarrow> real \<Rightarrow> Player" where
  "set_rating p rating = p"

definition set_rd :: "Player \<Rightarrow> real \<Rightarrow> Player" where
  "set_rd p rd = p"

definition get_g :: "real \<Rightarrow> real" where
  "get_g opp_rd = 1 / sqrt (1 + 3 * Q * Q * opp_rd * opp_rd / pi / pi)"

definition get_expected_score :: "Player \<Rightarrow> real \<Rightarrow> real \<Rightarrow> real \<Rightarrow> real" where
  "get_expected_score p opp_rating opp_rd g =
     1 / (1 + 10 powr (- g * (rating_m p - opp_rating) / 400))"

definition get_d2 :: "Player \<Rightarrow> real \<Rightarrow> real \<Rightarrow> real" where
  "get_d2 p opp_rating opp_rd =
     1 / (Q * Q * get_g opp_rd * get_g opp_rd
            * get_expected_score p opp_rating opp_rd (get_g opp_rd)
            * (1 - get_expected_score p opp_rating opp_rd (get_g opp_rd)))"

definition get_new_rating :: "Player \<Rightarrow> real \<Rightarrow> real \<Rightarrow> real \<Rightarrow> real \<Rightarrow> real" where
  "get_new_rating p score opp_rating opp_rd d2 =
     (let g = get_g opp_rd
      in rating_m p + Q / (1 / (rd_m p * rd_m p) + 1 / d2) * g
                       * (score - get_expected_score p opp_rating opp_rd g))"

definition get_new_rd :: "Player \<Rightarrow> real \<Rightarrow> real" where
  "get_new_rd p d2 = sqrt (1 / (1 / (rd_m p * rd_m p) + 1 / d2))"

text \<open>
  \<^verbatim>\<open>Player::update\<close>: the new rating and deviation are computed, handed to the two
  setters, and the comparison counter is incremented.
\<close>

definition update :: "Player \<Rightarrow> real \<Rightarrow> real \<Rightarrow> real \<Rightarrow> Player" where
  "update p score opp_rating opp_rd =
     (let d2 = get_d2 p opp_rating opp_rd;
          new_rating = get_new_rating p score opp_rating opp_rd d2;
          new_rd = get_new_rd p d2;
          p1 = set_rating p new_rating;
          p2 = set_rd p1 new_rd
      in p2\<lparr>num_comps_m := num_comps_m p2 + 1\<rparr>)"

subsection \<open>Single-precision arithmetic\<close>

text \<open>
  A value of a floating-point computation: a finite number, an infinity, or NaN. The
  sign of a zero is not kept; it could only show in a division by zero, and the divisors
  in \<^verbatim>\<open>compute_score_var\<close> are 400 and a product of two numbers that are at least 1.
\<close>

datatype fval = Fin real | PInf | NInf | NaN

text \<open>The power of two \<open>2^k\<close> for an integer exponent.\<close>

definition pow2 :: "int \<Rightarrow> real" where
  "pow2 k = (if 0 \<le> k then 2 ^ nat k else 1 / 2 ^ nat (- k))"

text \<open>Rounding to the nearest integer, a tie going to the even one.\<close>

definition round_even :: "real \<Rightarrow> int" where
  "round_even x =
     (let n = \<lfloor>x\<rfloor>; r = x - of_int n
      in if r < 1 / 2 then n else if 1 / 2 < r then n + 1 else if even n then n else n + 1)"

text \<open>
  IEEE 754 rounding to nearest, ties to even, into the binary format with \<open>p\<close>
  significand bits and exponents from \<open>emin\<close> to \<open>emax\<close>: the spacing of the format
  around \<open>x\<close> is \<open>2^(e - (p - 1))\<close> with \<open>e\<close> the exponent of \<open>x\<close>, not below \<open>emin\<close>
  (the subnormal range); a result of magnitude \<open>2^(emax + 1)\<close> or more is an infinity.
\<close>

definition round_to :: "nat \<Rightarrow> int \<Rightarrow> int \<Rightarrow> real \<Rightarrow> fval" where
  "round_to p emin emax x =
     (if x = 0 then Fin 0
      else (let q = pow2 (max \<lfloor>log 2 \<bar>x\<bar>\<rfloor> emin - (int p - 1));
                y = of_int (round_even (x / q)) * q
            in if pow2 (emax + 1) \<le> \<bar>y\<bar> then (if 0 < y then PInf else NInf) else Fin y))"

text \<open>\<^verbatim>\<open>float\<close> is binary32 and \<^verbatim>\<open>double\<close> is binary64.\<close>

definition round32 :: "real \<Rightarrow> fval" where
  "round32 x = round_to 24 (- 126) 127 x"

definition round64 :: "real \<Rightarrow> fval" where
  "round64 x = round_to 53 (- 1022) 1023 x"

text \<open>
  The operators \<^verbatim>\<open>+\<close>, \<^verbatim>\<open>-\<close>, \<^verbatim>\<open>*\<close>, \<^verbatim>\<open>/\<close> and \<^verbatim>\<open>>\<close> on \<^verbatim>\<open>float\<close>: the exact
  result rounded once, with the IEEE 754 rules for infinities and NaN. Every operation
  rounds to single precision on its own; no wider intermediate format is kept. An
  \<^verbatim>\<open>int\<close> operand (the literals 1 and 400) is converted to \<^verbatim>\<open>float\<close> first.
\<close>

fun negative :: "fval \<Rightarrow> bool" where
  "negative (Fin a) = (a < 0)"
| "negative NInf = True"
| "negative x = False"

fun fneg :: "fval \<Rightarrow> fval" where
  "fneg (Fin a) = Fin (- a)"
| "fneg PInf = NInf"
| "fneg NInf = PInf"
| "fneg NaN = NaN"

fun fadd :: "fval \<Rightarrow> fval \<Rightarrow> fval" where
  "fadd (Fin a) (Fin b) = round32 (a + b)"
| "fadd NaN y = NaN"
| "fadd x NaN = NaN"
| "fadd PInf NInf = NaN"
| "fadd NInf PInf = NaN"
| "fadd PInf y = PInf"
| "fadd x PInf = PInf"
| "fadd NInf y = NInf"
| "fadd x NInf = NInf"

definition fsub :: "fval \<Rightarrow> fval \<Rightarrow> fval" where
  "fsub x y = fadd x (fneg y)"

fun fmul :: "fval \<Rightarrow> fval \<Rightarrow> fval" where
  "fmul (Fin a) (Fin b) = round32 (a * b)"
| "fmul NaN y = NaN"
| "fmul x NaN = NaN"
| "fmul x y = (if x = Fin 0 \<or> y = Fin 0 then NaN
               else if negative x = negative y then PInf else NInf)"

fun fdiv :: "fval \<Rightarrow> fval \<Rightarrow> fval" where
  "fdiv (Fin a) (Fin b) =
     (if b = 0 then (if a = 0 then NaN else if a < 0 then NInf else PInf)
      else round32 (a / b))"
| "fdiv NaN y = NaN"
| "fdiv x NaN = NaN"
| "fdiv (Fin a) y = Fin 0"
| "fdiv x (Fin b) = (if negative x = (b < 0) then PInf else NInf)"
| "fdiv x y = NaN"

fun fgt :: "fval \<Rightarrow> fval \<Rightarrow> bool" where
  "fgt (Fin a) (Fin b) = (b < a)"
| "fgt NaN y = False"
| "fgt x NaN = False"
| "fgt x PInf = False"
| "fgt PInf y = True"
| "fgt NInf y = False"
| "fgt x NInf = True"

text \<open>
  \<^verbatim>\<open>pow(10, x)\<close> with a \<^verbatim>\<open>float\<close> argument \<^verbatim>\<open>x\<close>: both arguments are converted to
  \<^verbatim>\<open>double\<close>, the C library computes the power in \<^verbatim>\<open>double\<close>, and the assignment to
  a \<^verbatim>\<open>float\<close> rounds the result to single precision. The library function is not
  part of the repository; it is taken to return the correctly rounded value.
\<close>

definition pow10 :: "fval \<Rightarrow> fval" where
  "pow10 x =
     (case x of
        Fin y \<Rightarrow> (case round64 (10 powr y) of Fin d \<Rightarrow> round32 d | z \<Rightarrow> z)
      | PInf \<Rightarrow> PInf
      | NInf \<Rightarrow> Fin 0
      | NaN \<Rightarrow> NaN)"

text \<open>\<^verbatim>\<open>Player::compute_score_var\<close>, every intermediate a \<^verbatim>\<open>float\<close>.\<close>

definition compute_score_var :: "Player \<Rightarrow> real \<Rightarrow> real \<Rightarrow> fval" where
  "compute_score_var p opp_rating opp_rd =
     (let p10 = pow10 (fdiv (fsub (Fin (rating_m p)) (Fin opp_rating)) (Fin 400));
          frac = fdiv p10 (fmul (fadd (Fin 1) p10) (fadd (Fin 1) p10));
          frac2 = fmul frac frac
      in fmul frac2 (fadd (fmul (Fin (rd_m p)) (Fin (rd_m p)))
                          (fmul (Fin opp_rd) (Fin opp_rd))))"

section \<open>The ranker: low_vol_ranker.h and low_vol_ranker.cpp\<close>

text \<open>
  \<^verbatim>\<open>struct Comp { int id1; int id2; float score; };\<close> The fields are the three
  arguments of the constructor, in this order; the code never reads them back.
\<close>

datatype Comp = Comp int int real

record LowVolRanker =
  players_m :: "Player list"
  comps_m :: "Comp list"
  avoid_m :: "Player list"
  avoid_twice_m :: bool

text \<open>
  Two operations are undefined behaviour in C++ and end a run of the model with an
  error: an access \<^verbatim>\<open>players_[id]\<close> with \<^verbatim>\<open>id\<close> outside the vector
  (\<open>OutOfBounds\<close>), and the conversion to \<^verbatim>\<open>int\<close> of a \<^verbatim>\<open>float\<close> whose truncated
  value does not fit an \<^verbatim>\<open>int\<close> (\<open>ConversionOverflow\<close>).
\<close>

datatype error = OutOfBounds | ConversionOverflow

text \<open>\<^verbatim>\<open>LowVolRanker(bool avoid_twice=true)\<close>: the three vectors start empty.\<close>

definition LowVolRanker_ctor :: "bool \<Rightarrow> LowVolRanker" where
  "LowVolRanker_ctor avoid_twice =
     \<lparr>players_m = [], comps_m = [], avoid_m = [], avoid_twice_m = avoid_twice\<rparr>"

text \<open>
  The conversion of a \<^verbatim>\<open>float\<close> to a 32-bit \<^verbatim>\<open>int\<close> truncates towards zero, and is
  defined only when the truncated value lies between \<open>-2^31\<close> and \<open>2^31 - 1\<close>.
\<close>

definition float_to_int :: "real \<Rightarrow> error + int" where
  "float_to_int x =
     (let t = (if 0 \<le> x then \<lfloor>x\<rfloor> else \<lceil>x\<rceil>)
      in if - 2147483648 \<le> t \<and> t \<le> 2147483647 then Inr t else Inl ConversionOverflow)"

text \<open>
  \<^verbatim>\<open>players_.emplace_back(rating, rd)\<close> constructs the new element as
  \<^verbatim>\<open>Player(rating, rd)\<close>. The constructor's parameters are \<^verbatim>\<open>(int id, float rating,
  float rd = 350)\<close>, so the first argument is converted to the \<^verbatim>\<open>id\<close>, the second
  becomes the rating, and the deviation takes its default 350. The function returns
  \<^verbatim>\<open>void\<close>.
\<close>

definition addPlayer :: "real \<Rightarrow> real \<Rightarrow> LowVolRanker \<Rightarrow> error + LowVolRanker" where
  "addPlayer rating rd s =
     (case float_to_int rating of
        Inl e \<Rightarrow> Inl e
      | Inr id' \<Rightarrow> Inr (s\<lparr>players_m := players_m s @ [Player_ctor id' rd 350]\<rparr>))"

text \<open>
  Modelled from the spec: the equality between an element of \<^verbatim>\<open>avoid_\<close> (a
  \<^verbatim>\<open>Player\<close>) and an index, which \<^verbatim>\<open>std::find(avoid_.begin(), avoid_.end(), i)\<close> needs
  and which player.h does not declare. The spec describes the avoid-set as a set of
  entity ids, and \<^verbatim>\<open>avoid_.push_back(id1)\<close> builds the element from the id alone, so an
  element equals an index when its \<^verbatim>\<open>id_\<close> is that index.
\<close>

definition Player_eq_index :: "Player \<Rightarrow> nat \<Rightarrow> bool" where
  "Player_eq_index p i = (id_m p = int i)"

text \<open>\<^verbatim>\<open>std::find(avoid_.begin(), avoid_.end(), i) != avoid_.end()\<close>\<close>

definition in_avoid :: "LowVolRanker \<Rightarrow> nat \<Rightarrow> bool" where
  "in_avoid s i = list_ex (\<lambda>p. Player_eq_index p i) (avoid_m s)"

text \<open>
  The loop of \<^verbatim>\<open>get_best_player\<close> over the indices still to visit, with the running
  \<^verbatim>\<open>max_id\<close> and \<^verbatim>\<open>max_rd\<close>. The comparison of two stored deviations involves no
  arithmetic and is exact.
\<close>

fun best_player_loop :: "LowVolRanker \<Rightarrow> nat list \<Rightarrow> int \<Rightarrow> real \<Rightarrow> int" where
  "best_player_loop s [] max_id max_rd = max_id"
| "best_player_loop s (i # js) max_id max_rd =
     (if get_rd (players_m s ! i) > max_rd \<and> \<not> in_avoid s i
      then best_player_loop s js (int i) (get_rd (players_m s ! i))
      else best_player_loop s js max_id max_rd)"

definition get_best_player :: "LowVolRanker \<Rightarrow> int" where
  "get_best_player s = best_player_loop s [0..<length (players_m s)] (- 1) 0"

text \<open>\<^verbatim>\<open>players_[id]\<close> is inside the vector.\<close>

definition in_bounds :: "Player list \<Rightarrow> int \<Rightarrow> bool" where
  "in_bounds ps i = (0 \<le> i \<and> i < int (length ps))"

text \<open>
  The loop of \<^verbatim>\<open>get_best_opp\<close>. The element \<^verbatim>\<open>players_[id]\<close> is read only for an
  index that passes the test \<^verbatim>\<open>i != id\<close> and is not in \<^verbatim>\<open>avoid_\<close>; that read is
  the one that can leave the vector. \<^verbatim>\<open>var > max_var\<close> compares two \<^verbatim>\<open>float\<close>s.
\<close>

fun best_opp_loop :: "LowVolRanker \<Rightarrow> int \<Rightarrow> nat list \<Rightarrow> int \<Rightarrow> fval \<Rightarrow> error + int" where
  "best_opp_loop s id' [] max_id max_var = Inr max_id"
| "best_opp_loop s id' (i # js) max_id max_var =
     (if int i \<noteq> id' \<and> \<not> in_avoid s i then
        (if in_bounds (players_m s) id' then
           (let var = compute_score_var (players_m s ! nat id')
                        (get_rating (players_m s ! i)) (get_rd (players_m s ! i))
            in if fgt var max_var then best_opp_loop s id' js (int i) var
               else best_opp_loop s id' js max_id max_var)
         else Inl OutOfBounds)
      else best_opp_loop s id' js max_id max_var)"

definition get_best_opp :: "LowVolRanker \<Rightarrow> int \<Rightarrow> error + int" where
  "get_best_opp s id' = best_opp_loop s id' [0..<length (players_m s)] (- 1) (Fin 0)"

definition get_next_comp :: "LowVolRanker \<Rightarrow> error + (int \<times> int)" where
  "get_next_comp s =
     (let id1 = get_best_player s
      in case get_best_opp s id1 of
           Inl e \<Rightarrow> Inl e
         | Inr id2 \<Rightarrow> Inr (id1, id2))"

text \<open>
  One call \<^verbatim>\<open>players_[i].update(score, opp_rating, opp_rd)\<close>: the index of the
  player and the three arguments.
\<close>

type_synonym update_call = "nat \<times> real \<times> real \<times> real"

definition apply_update :: "Player list \<Rightarrow> update_call \<Rightarrow> Player list" where
  "apply_update ps call =
     (case call of (i, score, opp_rating, opp_rd) \<Rightarrow>
        ps[i := update (ps ! i) score opp_rating opp_rd])"

text \<open>
  The two calls of \<^verbatim>\<open>update\<close> that \<^verbatim>\<open>receive_comp\<close> makes, in order, each with
  its arguments as they are read when the call is made:
  \<^verbatim>\<open>players_[id1].update(score, players_[id2].get_rating(), players_[id2].get_rd())\<close>
  reads \<^verbatim>\<open>players_[id2]\<close> from the vector as \<^verbatim>\<open>receive_comp\<close> finds it, and
  \<^verbatim>\<open>players_[id2].update(1 - score, players_[id1].get_rating(), players_[id1].get_rd())\<close>
  reads \<^verbatim>\<open>players_[id1]\<close> from the vector the first call has left.
\<close>

definition update_calls :: "Player list \<Rightarrow> nat \<Rightarrow> nat \<Rightarrow> real \<Rightarrow> update_call list" where
  "update_calls ps id1 id2 score =
     (let call1 = (id1, score, get_rating (ps ! id2), get_rd (ps ! id2));
          ps1 = apply_update ps call1;
          call2 = (id2, 1 - score, get_rating (ps1 ! id1), get_rd (ps1 ! id1))
      in [call1, call2])"

text \<open>
  \<^verbatim>\<open>receive_comp\<close>: the comparison is appended first; with \<^verbatim>\<open>update\<close> set, the two
  calls of \<^verbatim>\<open>update\<close> are made in turn and, under the avoid-twice policy,
  \<^verbatim>\<open>avoid_\<close> is cleared and refilled with \<^verbatim>\<open>Player(id1)\<close> and \<^verbatim>\<open>Player(id2)\<close>.
\<close>

definition receive_comp :: "int \<Rightarrow> int \<Rightarrow> real \<Rightarrow> bool \<Rightarrow> LowVolRanker \<Rightarrow> error + LowVolRanker" where
  "receive_comp id1 id2 score upd s =
     (let s1 = s\<lparr>comps_m := comps_m s @ [Comp id1 id2 score]\<rparr>
      in if upd then
           (if in_bounds (players_m s1) id1 \<and> in_bounds (players_m s1) id2 then
              (let ps2 = foldl apply_update (players_m s1)
                           (update_calls (players_m s1) (nat id1) (nat id2) score);
                   s2 = s1\<lparr>players_m := ps2\<rparr>
               in Inr (if avoid_twice_m s2
                       then s2\<lparr>avoid_m := [Player_ctor id1 0 350, Player_ctor id2 0 350]\<rparr>
                       else s2))
            else Inl OutOfBounds)
         else Inr s1)"

text \<open>\<^verbatim>\<open>adjust_ratings\<close> and \<^verbatim>\<open>dump_ratings\<close> have empty bodies.\<close>

definition adjust_ratings :: "LowVolRanker \<Rightarrow> LowVolRanker" where
  "adjust_ratings s = s"

definition dump_ratings :: "string \<Rightarrow> LowVolRanker \<Rightarrow> LowVolRanker" where
  "dump_ratings filename s = s"

subsection \<open>Sequences of calls\<close>

text \<open>
  The public member functions of \<^verbatim>\<open>LowVolRanker\<close>, as calls on an object. A call
  whose behaviour is undefined ends the run with the error.
\<close>

datatype call =
    AddPlayer real real
  | GetNextComp
  | ReceiveComp int int real bool
  | AdjustRatings
  | DumpRatings string

fun step :: "call \<Rightarrow> LowVolRanker \<Rightarrow> error + LowVolRanker" where
  "step (AddPlayer rating rd) s = addPlayer rating rd s"
| "step GetNextComp s = (case get_next_comp s of Inl e \<Rightarrow> Inl e | Inr pr \<Rightarrow> Inr s)"
| "step (ReceiveComp id1 id2 score upd) s = receive_comp id1 id2 score upd s"
| "step AdjustRatings s = Inr (adjust_ratings s)"
| "step (DumpRatings filename) s = Inr (dump_ratings filename s)"

fun run :: "call list \<Rightarrow> LowVolRanker \<Rightarrow> error + LowVolRanker" where
  "run [] s = Inr s"
| "run (c # cs) s = (case step c s of Inl e \<Rightarrow> Inl e | Inr s' \<Rightarrow> run cs s')"

text \<open>
  What a call hands back to its caller, by the return type the header declares:
  nothing for a \<^verbatim>\<open>void\<close> function, an entity id for an \<^verbatim>\<open>int\<close>, a pair of ids for
  \<^verbatim>\<open>std::pair<int, int>\<close>. Of the public functions only \<^verbatim>\<open>get_next_comp\<close> is not
  \<^verbatim>\<open>void\<close>.
\<close>

datatype retval = Void | Id int | Ids int int

fun returned :: "call \<Rightarrow> LowVolRanker \<Rightarrow> error + retval" where
  "returned (AddPlayer rating rd) s =
     (case addPlayer rating rd s of Inl e \<Rightarrow> Inl e | Inr s' \<Rightarrow> Inr Void)"
| "returned GetNextComp s =
     (case get_next_comp s of Inl e \<Rightarrow> Inl e | Inr (id1, id2) \<Rightarrow> Inr (Ids id1 id2))"
| "returned (ReceiveComp id1 id2 score upd) s =
     (case receive_comp id1 id2 score upd s of Inl e \<Rightarrow> Inl e | Inr s' \<Rightarrow> Inr Void)"
| "returned AdjustRatings s = Inr Void"
| "returned (DumpRatings filename) s = Inr Void"

text \<open>The indices that selection may return: in the collection and not avoided.\<close>

definition eligible :: "LowVolRanker \<Rightarrow> nat list" where
  "eligible s = filter (\<lambda>i. \<not> in_avoid s i) [0..<length (players_m s)]"

section \<open>Notions of the specification\<close>

text \<open>
  A scan for the first maximum: the pattern both selection loops follow, with the test
  of eligibility \<open>ok\<close>, the quantity \<open>f\<close> and the comparison \<open>gt\<close> left open.
\<close>

fun scan_max ::
  "(nat \<Rightarrow> bool) \<Rightarrow> (nat \<Rightarrow> 'v) \<Rightarrow> ('v \<Rightarrow> 'v \<Rightarrow> bool) \<Rightarrow> nat list \<Rightarrow> int \<Rightarrow> 'v \<Rightarrow> int" where
  "scan_max ok f gt [] max_id max_val = max_id"
| "scan_max ok f gt (i # js) max_id max_val =
     (if ok i \<and> gt (f i) max_val then scan_max ok f gt js (int i) (f i)
      else scan_max ok f gt js max_id max_val)"

text \<open>
  What the scan needs of the comparison: a strict order in which a value not above a
  bound lies below everything above that bound, as long as it lies above something
  (for \<^verbatim>\<open>float\<close>s: as long as it is not NaN).
\<close>

definition scan_order :: "('v \<Rightarrow> 'v \<Rightarrow> bool) \<Rightarrow> bool" where
  "scan_order gt =
     ((\<forall>a. \<not> gt a a)
      \<and> (\<forall>a b c. gt a b \<longrightarrow> gt b c \<longrightarrow> gt a c)
      \<and> (\<forall>a b c z. gt c b \<longrightarrow> \<not> gt a b \<longrightarrow> gt a z \<longrightarrow> gt c a))"

definition rd_at :: "LowVolRanker \<Rightarrow> nat \<Rightarrow> real" where
  "rd_at s i = get_rd (players_m s ! i)"

text \<open>
  What the specification asks of the first slot: with no eligible entity the sentinel
  \<open>-1\<close>; otherwise an eligible entity whose deviation no eligible entity exceeds and
  every earlier eligible entity stays strictly below (a later tie does not replace the
  incumbent).
\<close>

definition first_slot_spec :: "LowVolRanker \<Rightarrow> int \<Rightarrow> bool" where
  "first_slot_spec s a =
     (if eligible s = [] then a = - 1
      else (\<exists>i\<in>set (eligible s). a = int i
              \<and> (\<forall>j\<in>set (eligible s). rd_at s j \<le> rd_at s i)
              \<and> (\<forall>j\<in>set (eligible s). j < i \<longrightarrow> rd_at s j < rd_at s i)))"

text \<open>Every eligible entity has a positive deviation.\<close>

definition positive_rd :: "LowVolRanker \<Rightarrow> bool" where
  "positive_rd s = list_all (\<lambda>i. 0 < rd_at s i) (eligible s)"

text \<open>
  The variance proxy in the words of the specification, in exact arithmetic:
  \<open>p = 10^((rating - opponent_rating)/400)\<close>, \<open>frac = p / (1+p)\<^sup>2\<close>,
  \<open>variance = frac\<^sup>2 \<cdot> (rd\<^sup>2 + opponent_rd\<^sup>2)\<close>.
\<close>

definition score_variance :: "real \<Rightarrow> real \<Rightarrow> real \<Rightarrow> real \<Rightarrow> real" where
  "score_variance rating rd opponent_rating opponent_rd =
     (let p = 10 powr ((rating - opponent_rating) / 400);
          frac = p / (1 + p)\<^sup>2
      in frac\<^sup>2 * (rd\<^sup>2 + opponent_rd\<^sup>2))"

text \<open>
  The variance the code computes for the first entity \<open>a\<close> against the candidate \<open>j\<close>.
\<close>

definition var_at :: "LowVolRanker \<Rightarrow> int \<Rightarrow> nat \<Rightarrow> fval" where
  "var_at s a j =
     compute_score_var (players_m s ! nat a)
       (get_rating (players_m s ! j)) (get_rd (players_m s ! j))"

text \<open>The candidates for the second slot: not the first entity and not avoided.\<close>

definition candidates :: "LowVolRanker \<Rightarrow> int \<Rightarrow> nat list" where
  "candidates s a = filter (\<lambda>i. int i \<noteq> a \<and> \<not> in_avoid s i) [0..<length (players_m s)]"

text \<open>The candidates whose computed variance is strictly greater than 0.\<close>

definition positive_candidates :: "LowVolRanker \<Rightarrow> int \<Rightarrow> nat list" where
  "positive_candidates s a = filter (\<lambda>j. fgt (var_at s a j) (Fin 0)) (candidates s a)"

text \<open>
  The second slot: with no candidate of positive computed variance the sentinel \<open>-1\<close>;
  otherwise such a candidate whose variance none of them exceeds and every earlier one
  stays strictly below.
\<close>

definition second_slot_spec :: "LowVolRanker \<Rightarrow> int \<Rightarrow> int \<Rightarrow> bool" where
  "second_slot_spec s a c =
     (if positive_candidates s a = [] then c = - 1
      else (\<exists>i\<in>set (positive_candidates s a). c = int i
              \<and> (\<forall>j\<in>set (positive_candidates s a). \<not> fgt (var_at s a j) (var_at s a i))
              \<and> (\<forall>j\<in>set (positive_candidates s a). j < i \<longrightarrow> fgt (var_at s a i) (var_at s a j))))"

text \<open>Every player stored in the ranker has deviation 350.\<close>

definition rd_inv :: "LowVolRanker \<Rightarrow> bool" where
  "rd_inv s = (\<forall>p\<in>set (players_m s). rd_m p = 350)"


text \<open>The ledger a sequence of calls should leave: one entry per \<^verbatim>\<open>receive_comp\<close>.\<close>

fun ledger_of :: "call list \<Rightarrow> Comp list" where
  "ledger_of [] = []"
| "ledger_of (ReceiveComp id1 id2 score upd # cs) = Comp id1 id2 score # ledger_of cs"
| "ledger_of (c # cs) = ledger_of cs"

text \<open>A call of \<^verbatim>\<open>receive_comp\<close> with \<^verbatim>\<open>update = true\<close>.\<close>

fun update_bearing :: "call \<Rightarrow> bool" where
  "update_bearing (ReceiveComp id1 id2 score upd) = upd"
| "update_bearing c = False"

text \<open>The two ids of the most recent update-bearing call of a sequence, if there is one.\<close>

fun last_update_comp :: "call list \<Rightarrow> (int \<times> int) option" where
  "last_update_comp [] = None"
| "last_update_comp (c # cs) =
     (case last_update_comp cs of
        Some pr \<Rightarrow> Some pr
      | None \<Rightarrow> (case c of
                   ReceiveComp id1 id2 score upd \<Rightarrow> if upd then Some (id1, id2) else None
                 | _ \<Rightarrow> None))"

text \<open>The avoid-list after a sequence of calls, from the policy and the list before.\<close>

definition avoid_after :: "bool \<Rightarrow> Player list \<Rightarrow> call list \<Rightarrow> Player list" where
  "avoid_after avoid_twice av ops =
     (if avoid_twice
      then (case last_update_comp ops of
              None \<Rightarrow> av
            | Some (id1, id2) \<Rightarrow> [Player_ctor id1 0 350, Player_ctor id2 0 350])
      else av)"

definition avoid_ids :: "LowVolRanker \<Rightarrow> int list" where
  "avoid_ids s = map id_m (avoid_m s)"

subsection \<open>Concrete states\<close>

text \<open>
  Three players, a comparison recorded without update, then one with update between
  players 0 and 1.
\<close>

definition ex_calls :: "call list" where
  "ex_calls = [AddPlayer 0 0, AddPlayer 0 0, AddPlayer 0 0,
               ReceiveComp 2 1 (1 / 2) False, ReceiveComp 0 1 1 True]"

definition ex_state :: LowVolRanker where
  "ex_state =
     \<lparr>players_m = [\<lparr>id_m = 0, rating_m = 0, rd_m = 350, num_comps_m = 1\<rparr>,
                   \<lparr>id_m = 0, rating_m = 0, rd_m = 350, num_comps_m = 1\<rparr>,
                   \<lparr>id_m = 0, rating_m = 0, rd_m = 350, num_comps_m = 0\<rparr>],
      comps_m = [Comp 2 1 (1 / 2), Comp 0 1 1],
      avoid_m = [\<lparr>id_m = 0, rating_m = 0, rd_m = 350, num_comps_m = 0\<rparr>,
                 \<lparr>id_m = 1, rating_m = 0, rd_m = 350, num_comps_m = 0\<rparr>],
      avoid_twice_m = True\<rparr>"

text \<open>Three players of rating 0, and no comparison yet.\<close>

definition ex_three :: LowVolRanker where
  "ex_three =
     \<lparr>players_m = [\<lparr>id_m = 0, rating_m = 0, rd_m = 350, num_comps_m = 0\<rparr>,
                   \<lparr>id_m = 0, rating_m = 0, rd_m = 350, num_comps_m = 0\<rparr>,
                   \<lparr>id_m = 0, rating_m = 0, rd_m = 350, num_comps_m = 0\<rparr>],
      comps_m = [], avoid_m = [], avoid_twice_m = True\<rparr>"

text \<open>
  Two players whose ratings are 0 and 10000: the state after \<^verbatim>\<open>addPlayer(0, 0)\<close> and
  \<^verbatim>\<open>addPlayer(0, 10000)\<close> on a new ranker.
\<close>

definition gap_calls :: "call list" where
  "gap_calls = [AddPlayer 0 0, AddPlayer 0 10000]"

definition gap_state :: LowVolRanker where
  "gap_state =
     \<lparr>players_m = [\<lparr>id_m = 0, rating_m = 0, rd_m = 350, num_comps_m = 0\<rparr>,
                   \<lparr>id_m = 0, rating_m = 10000, rd_m = 350, num_comps_m = 0\<rparr>],
      comps_m = [], avoid_m = [], avoid_twice_m = True\<rparr>"

text \<open>
  Three players whose ratings are 0, 12000 and 12000: the state after
  \<^verbatim>\<open>addPlayer(0, 0)\<close>, \<^verbatim>\<open>addPlayer(0, 12000)\<close> and \<^verbatim>\<open>addPlayer(0, 12000)\<close>.
\<close>

definition far_calls :: "call list" where
  "far_calls = [AddPlayer 0 0, AddPlayer 0 12000, AddPlayer 0 12000]"

definition far_state :: LowVolRanker where
  "far_state =
     \<lparr>players_m = [\<lparr>id_m = 0, rating_m = 0, rd_m = 350, num_comps_m = 0\<rparr>,
                   \<lparr>id_m = 0, rating_m = 12000, rd_m = 350, num_comps_m = 0\<rparr>,
                   \<lparr>id_m = 0, rating_m = 12000, rd_m = 350, num_comps_m = 0\<rparr>],
      comps_m = [], avoid_m = [], avoid_twice_m = False\<rparr>"

text \<open>
  Five players with deviations 200, 400, 350, 350 and 100, the second of them avoided.
\<close>

definition mixed_rd_state :: LowVolRanker where
  "mixed_rd_state =
     \<lparr>players_m = [\<lparr>id_m = 0, rating_m = 0, rd_m = 200, num_comps_m = 0\<rparr>,
                   \<lparr>id_m = 1, rating_m = 0, rd_m = 400, num_comps_m = 0\<rparr>,
                   \<lparr>id_m = 2, rating_m = 0, rd_m = 350, num_comps_m = 0\<rparr>,
                   \<lparr>id_m = 3, rating_m = 0, rd_m = 350, num_comps_m = 0\<rparr>,
                   \<lparr>id_m = 4, rating_m = 0, rd_m = 100, num_comps_m = 0\<rparr>],
      comps_m = [],
      avoid_m = [\<lparr>id_m = 1, rating_m = 0, rd_m = 350, num_comps_m = 0\<rparr>],
      avoid_twice_m = True\<rparr>"

section \<open>The update rule and the stored state\<close>

lemma update_eq: "update p score opp_rating opp_rd = p\<lparr>num_comps_m := num_comps_m p + 1\<rparr>"
  by (simp add: update_def set_rating_def set_rd_def Let_def)

lemma Q_pos: "0 < Q"
  by (simp add: Q_def)

lemma get_g_pos: "0 < get_g opp_rd"
proof -
  have "3 * Q * Q * opp_rd * opp_rd / pi / pi = 3 * (Q * opp_rd / pi)\<^sup>2"
    by (simp add: power2_eq_square)
  then have "0 \<le> 3 * Q * Q * opp_rd * opp_rd / pi / pi"
    by simp
  then have "0 < 1 + 3 * Q * Q * opp_rd * opp_rd / pi / pi"
    by linarith
  then show ?thesis
    by (simp add: get_g_def)
qed

lemma get_expected_score_bounds:
  "0 < get_expected_score p opp_rating opp_rd g \<and> get_expected_score p opp_rating opp_rd g < 1"
  by (simp add: get_expected_score_def add_pos_pos)

lemma get_d2_pos: "0 < get_d2 p opp_rating opp_rd"
  using get_expected_score_bounds[of p opp_rating opp_rd "get_g opp_rd"] get_g_pos[of opp_rd] Q_pos
  by (simp add: get_d2_def)

lemma get_new_rd_less:
  assumes "0 < rd_m p" and "0 < d2"
  shows "get_new_rd p d2 < rd_m p"
proof -
  let ?r = "rd_m p"
  have a: "0 < 1 / (?r * ?r)" using assms by simp
  have b: "0 < 1 / d2" using assms by simp
  have "inverse (1 / (?r * ?r) + 1 / d2) < inverse (1 / (?r * ?r))"
    using a b by (intro less_imp_inverse_less) simp_all
  then have "1 / (1 / (?r * ?r) + 1 / d2) < 1 / (1 / (?r * ?r))"
    by (simp only: inverse_eq_divide)
  then have "1 / (1 / (?r * ?r) + 1 / d2) < ?r * ?r"
    by simp
  then have "sqrt (1 / (1 / (?r * ?r) + 1 / d2)) < sqrt (?r * ?r)"
    by (rule real_sqrt_less_mono)
  then show ?thesis
    using assms by (simp add: get_new_rd_def)
qed

lemma get_new_rating_greater:
  assumes "0 < rd_m p" and "0 < d2" and "1 \<le> score"
  shows "rating_m p < get_new_rating p score opp_rating opp_rd d2"
proof -
  have "0 < Q / (1 / (rd_m p * rd_m p) + 1 / d2)"
    using assms Q_pos by (simp add: add_pos_pos)
  moreover have "0 < score - get_expected_score p opp_rating opp_rd (get_g opp_rd)"
    using get_expected_score_bounds[of p opp_rating opp_rd "get_g opp_rd"] assms by simp
  ultimately have "0 < Q / (1 / (rd_m p * rd_m p) + 1 / d2) * get_g opp_rd
                         * (score - get_expected_score p opp_rating opp_rd (get_g opp_rd))"
    using get_g_pos[of opp_rd] by (intro mult_pos_pos)
  then show ?thesis
    by (simp add: get_new_rating_def Let_def)
qed

text \<open>
  In the scenario of C1 the values that \<^verbatim>\<open>update\<close> computes do move in the claimed
  directions: the new rating is above 0 and the new deviation below 350.
\<close>

lemma update_scenario_computed:
  "0 < get_new_rating (Player_ctor 0 0 350) 1 0 350 (get_d2 (Player_ctor 0 0 350) 0 350)
   \<and> get_new_rd (Player_ctor 0 0 350) (get_d2 (Player_ctor 0 0 350) 0 350) < 350"
  using get_new_rating_greater[of "Player_ctor 0 0 350" "get_d2 (Player_ctor 0 0 350) 0 350" 1 0 350]
        get_new_rd_less[of "Player_ctor 0 0 350" "get_d2 (Player_ctor 0 0 350) 0 350"]
        get_d2_pos[of "Player_ctor 0 0 350" 0 350]
  by (simp add: Player_ctor_def)

text \<open>
  C1. A player with rating 0 and deviation 350 that receives
  \<^verbatim>\<open>update(1.0, 0, 350)\<close> should afterwards report a strictly larger rating and a
  strictly smaller deviation. The code computes such values and passes them to
  \<^verbatim>\<open>set_rating\<close> and \<^verbatim>\<open>set_rd\<close>, which store nothing: after the call
  \<^verbatim>\<open>get_rating()\<close> is still 0 and \<^verbatim>\<open>get_rd()\<close> is still 350.
\<close>

theorem update_scenario_not_committed:
  "get_rating (update (Player_ctor 0 0 350) 1 0 350) = 0
   \<and> get_rd (update (Player_ctor 0 0 350) 1 0 350) = 350"
  by (simp add: update_eq get_rating_def get_rd_def Player_ctor_def)

text \<open>
  C3. The deviation of a player should strictly decrease with every update against an
  opponent of finite positive deviation. In the code the deviation a player reports
  after any update is the one it reported before, whatever the arguments.
\<close>

theorem update_rd_unchanged:
  "get_rd (update p score opp_rating opp_rd) = get_rd p"
  by (simp add: update_eq get_rd_def)

section \<open>Registering players\<close>

lemma addPlayer_Inr:
  assumes "addPlayer rating rd s = Inr s'"
  shows "\<exists>id'. float_to_int rating = Inr id'
           \<and> s' = s\<lparr>players_m := players_m s @ [Player_ctor id' rd 350]\<rparr>"
  using assms by (auto simp: addPlayer_def split: sum.splits)

lemma float_to_int_small: "float_to_int 0 = Inr 0" "float_to_int 1500 = Inr 1500"
  by (simp_all add: float_to_int_def)

text \<open>
  C2. A player added with \<^verbatim>\<open>addPlayer(r, d)\<close> should report rating \<open>r\<close> and
  deviation \<open>d\<close>. In the code the new player reports the second argument as its rating
  and 350 as its deviation; the first argument only reaches the field \<^verbatim>\<open>id_\<close>.
\<close>

theorem addPlayer_reports_rd_as_rating:
  assumes "addPlayer rating rd s = Inr s'"
  shows "get_rating (last (players_m s')) = rd
       \<and> get_rd (last (players_m s')) = 350
       \<and> float_to_int rating = Inr (id_m (last (players_m s')))"
  using addPlayer_Inr[OF assms]
  by (auto simp: get_rating_def get_rd_def Player_ctor_def)

lemma addPlayer_1500_200:
  "addPlayer 1500 200 (LowVolRanker_ctor True)
     = Inr \<lparr>players_m = [\<lparr>id_m = 1500, rating_m = 200, rd_m = 350, num_comps_m = 0\<rparr>],
            comps_m = [], avoid_m = [], avoid_twice_m = True\<rparr>"
  by (simp add: addPlayer_def float_to_int_small LowVolRanker_ctor_def Player_ctor_def)

theorem addPlayer_reports_rd_as_rating_witness:
  "addPlayer 1500 200 (LowVolRanker_ctor True)
     = Inr \<lparr>players_m = [\<lparr>id_m = 1500, rating_m = 200, rd_m = 350, num_comps_m = 0\<rparr>],
            comps_m = [], avoid_m = [], avoid_twice_m = True\<rparr>
   \<and> get_rating (last (players_m
        \<lparr>players_m = [\<lparr>id_m = 1500, rating_m = 200, rd_m = 350, num_comps_m = 0\<rparr>],
         comps_m = [], avoid_m = [], avoid_twice_m = True\<rparr>)) = 200
   \<and> get_rd (last (players_m
        \<lparr>players_m = [\<lparr>id_m = 1500, rating_m = 200, rd_m = 350, num_comps_m = 0\<rparr>],
         comps_m = [], avoid_m = [], avoid_twice_m = True\<rparr>)) = 350"
  using addPlayer_reports_rd_as_rating[OF addPlayer_1500_200] addPlayer_1500_200
  by simp

text \<open>
  With the default arguments on a new ranker the rating reported is 350, not 0.
\<close>

lemma addPlayer_defaults:
  "addPlayer 0 350 (LowVolRanker_ctor True)
     = Inr \<lparr>players_m = [\<lparr>id_m = 0, rating_m = 350, rd_m = 350, num_comps_m = 0\<rparr>],
            comps_m = [], avoid_m = [], avoid_twice_m = True\<rparr>"
  by (simp add: addPlayer_def float_to_int_small LowVolRanker_ctor_def Player_ctor_def)

text \<open>
  C10, as stated: \<^verbatim>\<open>addPlayer\<close> returns the id of the new entity, equal to the size
  of the collection before the insertion. On a new ranker the collection is empty, the
  call \<^verbatim>\<open>addPlayer(0, 350)\<close> succeeds, and what it returns is nothing: not the id 0.
\<close>

theorem addPlayer_returns_no_id_counterexample:
  "length (players_m (LowVolRanker_ctor True)) = 0
   \<and> returned (AddPlayer 0 350) (LowVolRanker_ctor True) = Inr Void
   \<and> returned (AddPlayer 0 350) (LowVolRanker_ctor True)
       \<noteq> Inr (Id (int (length (players_m (LowVolRanker_ctor True)))))"
  by (simp add: addPlayer_defaults) (simp add: LowVolRanker_ctor_def)

text \<open>
  C10, amended: \<^verbatim>\<open>addPlayer\<close> returns no value. It appends exactly one player at the
  end of the collection: the collection grows by one, so the new player's index is the
  size of the collection before the insertion, and the players already present keep
  their indices.
\<close>

theorem addPlayer_index:
  assumes "addPlayer rating rd s = Inr s'"
  shows "returned (AddPlayer rating rd) s = Inr Void
       \<and> length (players_m s') = Suc (length (players_m s))
       \<and> take (length (players_m s)) (players_m s') = players_m s"
  using addPlayer_Inr[OF assms] assms by auto

theorem addPlayer_index_witness:
  "addPlayer 0 350 (LowVolRanker_ctor True)
     = Inr \<lparr>players_m = [\<lparr>id_m = 0, rating_m = 350, rd_m = 350, num_comps_m = 0\<rparr>],
            comps_m = [], avoid_m = [], avoid_twice_m = True\<rparr>
   \<and> returned (AddPlayer 0 350) (LowVolRanker_ctor True) = Inr Void
   \<and> length (players_m
        \<lparr>players_m = [\<lparr>id_m = 0, rating_m = 350, rd_m = 350, num_comps_m = 0\<rparr>],
         comps_m = [], avoid_m = [], avoid_twice_m = True\<rparr>)
       = Suc (length (players_m (LowVolRanker_ctor True)))
   \<and> take (length (players_m (LowVolRanker_ctor True)))
        (players_m
          \<lparr>players_m = [\<lparr>id_m = 0, rating_m = 350, rd_m = 350, num_comps_m = 0\<rparr>],
           comps_m = [], avoid_m = [], avoid_twice_m = True\<rparr>)
       = players_m (LowVolRanker_ctor True)"
  using addPlayer_index[OF addPlayer_defaults] addPlayer_defaults
  by simp

section \<open>Facts of single-precision arithmetic\<close>

lemma pow2_powr: "pow2 k = 2 powr of_int k"
  by (simp add: pow2_def powr_int)

lemma pow2_pos: "0 < pow2 k"
  by (simp add: pow2_powr)

lemma pow2_mono: "a \<le> b \<Longrightarrow> pow2 a \<le> pow2 b"
  by (simp add: pow2_powr)

lemma pow2_add: "pow2 (a + b) = pow2 a * pow2 b"
  by (simp add: pow2_powr powr_add)

lemma pow2_nat: "0 \<le> k \<Longrightarrow> pow2 k = of_int (2 ^ nat k)"
  by (simp add: pow2_def)

lemma floor_log2_eq:
  assumes "0 < x" and "pow2 k \<le> x" and "x < pow2 (k + 1)"
  shows "\<lfloor>log 2 x\<rfloor> = k"
proof -
  have "of_int k \<le> log 2 x"
    using assms by (simp add: le_log_iff pow2_powr)
  moreover have "log 2 x < of_int k + 1"
    using assms by (simp add: log_less_iff pow2_powr add.commute)
  ultimately show ?thesis
    by (simp add: floor_eq_iff)
qed

lemma floor_log2_le:
  assumes "0 < x" and "x \<le> pow2 k"
  shows "\<lfloor>log 2 x\<rfloor> \<le> k"
proof -
  have "log 2 x \<le> of_int k"
    using assms by (simp add: log_le_iff pow2_powr)
  then show ?thesis
    by (simp add: floor_le_iff)
qed

lemma round_even_near:
  assumes "of_int n \<le> x" and "x < of_int n + 1 / 2"
  shows "round_even x = n"
proof -
  have "\<lfloor>x\<rfloor> = n"
    using assms by (simp add: floor_eq_iff)
  then show ?thesis
    using assms by (simp add: round_even_def Let_def)
qed

lemma round_even_of_int: "round_even (of_int n) = n"
  by (rule round_even_near) simp_all

lemma round_even_nonneg: "0 \<le> x \<Longrightarrow> 0 \<le> round_even x"
  by (auto simp: round_even_def Let_def)

lemma round_even_le:
  assumes "x \<le> of_int N"
  shows "round_even x \<le> N"
proof (cases "x = of_int N")
  case True
  then show ?thesis by (simp add: round_even_of_int)
next
  case False
  then have "x < of_int N" using assms by simp
  then have "\<lfloor>x\<rfloor> < N" by (simp add: floor_less_iff)
  then show ?thesis
    by (auto simp: round_even_def Let_def)
qed

text \<open>A number of the format rounds to itself.\<close>

lemma round_to_exact:
  assumes "pow2 k \<le> \<bar>x\<bar>" and "\<bar>x\<bar> < pow2 (k + 1)" and "emin \<le> k" and "k \<le> emax"
    and "x / pow2 (k - (int p - 1)) \<in> \<int>"
  shows "round_to p emin emax x = Fin x"
proof -
  have x0: "x \<noteq> 0" using assms(1) pow2_pos[of k] by auto
  then have "0 < \<bar>x\<bar>" by simp
  then have fl: "\<lfloor>log 2 \<bar>x\<bar>\<rfloor> = k"
    using assms(1,2) by (rule floor_log2_eq)
  let ?q = "pow2 (k - (int p - 1))"
  from assms(5) obtain n where n: "x / ?q = of_int n"
    by (auto simp: Ints_def)
  have q: "?q \<noteq> 0" using pow2_pos[of "k - (int p - 1)"] by simp
  have y: "of_int (round_even (x / ?q)) * ?q = x"
    using n q by (simp add: round_even_of_int field_simps)
  have "\<bar>x\<bar> < pow2 (emax + 1)"
    using assms(2,4) pow2_mono[of "k + 1" "emax + 1"] by simp
  then show ?thesis
    using x0 fl assms(3) y by (simp add: round_to_def Let_def max_def)
qed

text \<open>Rounding does not carry a number between 0 and a power of two beyond it.\<close>

lemma round_to_le_pow2:
  assumes "0 \<le> x" and "x \<le> pow2 k" and "emin \<le> k" and "k \<le> emax" and "0 < p"
  shows "\<exists>y. round_to p emin emax x = Fin y \<and> 0 \<le> y \<and> y \<le> pow2 k"
proof (cases "x = 0")
  case True
  then show ?thesis using pow2_pos[of k] by (simp add: round_to_def less_imp_le)
next
  case False
  then have xp: "0 < x" using assms(1) by simp
  let ?e = "max \<lfloor>log 2 \<bar>x\<bar>\<rfloor> emin"
  let ?q = "pow2 (?e - (int p - 1))"
  let ?y = "of_int (round_even (x / ?q)) * ?q"
  have "\<lfloor>log 2 \<bar>x\<bar>\<rfloor> \<le> k"
    using xp assms(2) by (simp add: floor_log2_le)
  then have ek: "?e \<le> k" using assms(3) by simp
  have qp: "0 < ?q" by (rule pow2_pos)
  have split: "pow2 k = pow2 (k - ?e + (int p - 1)) * ?q"
    by (simp add: pow2_add[symmetric])
  have nn: "0 \<le> k - ?e + (int p - 1)" using ek assms(5) by simp
  then have int: "pow2 (k - ?e + (int p - 1)) = of_int (2 ^ nat (k - ?e + (int p - 1)))"
    by (rule pow2_nat)
  have "x / ?q \<le> pow2 (k - ?e + (int p - 1))"
    using assms(2) qp split by (simp add: field_simps)
  then have "round_even (x / ?q) \<le> 2 ^ nat (k - ?e + (int p - 1))"
    unfolding int by (rule round_even_le)
  then have "of_int (round_even (x / ?q)) \<le> pow2 (k - ?e + (int p - 1))"
    unfolding int by (simp only: of_int_le_iff)
  then have up: "?y \<le> pow2 k"
    using qp split by (simp add: mult_right_mono less_imp_le)
  have "0 \<le> x / ?q" using xp qp by (simp add: less_imp_le)
  then have "0 \<le> round_even (x / ?q)" by (rule round_even_nonneg)
  then have lo: "0 \<le> ?y" using qp by (simp add: less_imp_le)
  have "pow2 k < pow2 (emax + 1)"
    using assms(4) by (simp add: pow2_powr)
  then have "\<not> pow2 (emax + 1) \<le> \<bar>?y\<bar>" using up lo by simp
  then have "round_to p emin emax x = Fin ?y"
    using False by (simp add: round_to_def Let_def)
  then show ?thesis using up lo by blast
qed

text \<open>A number below half the smallest subnormal rounds to 0.\<close>

lemma round_to_tiny:
  assumes "0 \<le> x" and "x < pow2 (emin - int p)"
  shows "round_to p emin emax x = Fin 0"
proof (cases "x = 0")
  case True
  then show ?thesis by (simp add: round_to_def)
next
  case False
  then have xp: "0 < x" using assms(1) by simp
  have "x \<le> pow2 emin"
    using assms(2) pow2_mono[of "emin - int p" emin] by simp
  then have "\<lfloor>log 2 \<bar>x\<bar>\<rfloor> \<le> emin"
    using xp by (simp add: floor_log2_le)
  then have e: "max \<lfloor>log 2 \<bar>x\<bar>\<rfloor> emin = emin" by simp
  let ?q = "pow2 (emin - (int p - 1))"
  have qp: "0 < ?q" by (rule pow2_pos)
  have "emin - (int p - 1) = (emin - int p) + 1" by simp
  then have "?q = pow2 (emin - int p) * pow2 1"
    by (simp only: pow2_add)
  moreover have "pow2 1 = 2" by (simp add: pow2_def)
  ultimately have "?q = pow2 (emin - int p) * 2" by simp
  then have "x / ?q < 1 / 2"
    using assms(2) qp by (simp add: field_simps)
  moreover have "0 \<le> x / ?q" using xp qp by (simp add: less_imp_le)
  ultimately have "round_even (x / ?q) = 0"
    by (intro round_even_near) simp_all
  moreover have "\<not> pow2 (emax + 1) \<le> 0"
    using pow2_pos[of "emax + 1"] by simp
  ultimately show ?thesis
    using False e by (simp add: round_to_def Let_def)
qed

text \<open>Adding less than half a unit in the last place to 1 gives 1.\<close>

lemma round32_one_plus:
  assumes "0 \<le> t" and "t < pow2 (- 24)"
  shows "round32 (1 + t) = Fin 1"
proof -
  have t: "t < 1 / 16777216" using assms(2) by (simp add: pow2_def)
  have "\<lfloor>log 2 \<bar>1 + t\<bar>\<rfloor> = 0"
    using assms(1) t by (intro floor_log2_eq) (simp_all add: pow2_def)
  then have e: "max \<lfloor>log 2 \<bar>1 + t\<bar>\<rfloor> (- 126) = 0" by simp
  have q: "pow2 (0 - (int 24 - 1)) = 1 / 8388608" by (simp add: pow2_def)
  have "round_even ((1 + t) / (1 / 8388608)) = 8388608"
    using assms(1) t by (intro round_even_near) simp_all
  then show ?thesis
    using assms(1) e q by (simp add: round32_def round_to_def Let_def pow2_def)
qed

lemma round32_0: "round32 0 = Fin 0"
  by (simp add: round32_def round_to_def)

lemma round32_1: "round32 1 = Fin 1"
  using round32_one_plus[of 0] by (simp add: pow2_def)

lemma round64_1: "round64 1 = Fin 1"
  unfolding round64_def by (rule round_to_exact[where k = 0]) (simp_all add: pow2_def)

lemma round32_2: "round32 2 = Fin 2"
  unfolding round32_def by (rule round_to_exact[where k = 1]) (simp_all add: pow2_def)

lemma round32_4: "round32 4 = Fin 4"
  unfolding round32_def by (rule round_to_exact[where k = 2]) (simp_all add: pow2_def)

lemma round32_quarter: "round32 (1 / 4) = Fin (1 / 4)"
  unfolding round32_def by (rule round_to_exact[where k = "- 2"]) (simp_all add: pow2_def)

lemma round32_sixteenth: "round32 (1 / 16) = Fin (1 / 16)"
  unfolding round32_def by (rule round_to_exact[where k = "- 4"]) (simp_all add: pow2_def)

lemma round32_122500: "round32 122500 = Fin 122500"
  unfolding round32_def by (rule round_to_exact[where k = 16]) (simp_all add: pow2_def)

lemma round32_245000: "round32 245000 = Fin 245000"
  unfolding round32_def by (rule round_to_exact[where k = 17]) (simp_all add: pow2_def)

lemma round32_var: "round32 (30625 / 2) = Fin (30625 / 2)"
  unfolding round32_def by (rule round_to_exact[where k = 13]) (simp_all add: pow2_def)

lemma round32_m10000: "round32 (- 10000) = Fin (- 10000)"
  unfolding round32_def by (rule round_to_exact[where k = 13]) (simp_all add: pow2_def)

lemma round32_m25: "round32 (- 25) = Fin (- 25)"
  unfolding round32_def by (rule round_to_exact[where k = 4]) (simp_all add: pow2_def)

lemma round32_m12000: "round32 (- 12000) = Fin (- 12000)"
  unfolding round32_def by (rule round_to_exact[where k = 13]) (simp_all add: pow2_def)

lemma round32_m30: "round32 (- 30) = Fin (- 30)"
  unfolding round32_def by (rule round_to_exact[where k = 4]) (simp_all add: pow2_def)

text \<open>The comparison \<^verbatim>\<open>>\<close> on \<^verbatim>\<open>float\<close>s is a strict order that is linear off NaN.\<close>

lemma fgt_irrefl: "\<not> fgt a a"
  by (cases a) simp_all

lemma fgt_trans: "fgt a b \<Longrightarrow> fgt b c \<Longrightarrow> fgt a c"
  by (cases a; cases b; cases c) simp_all

lemma fgt_linear: "fgt c b \<Longrightarrow> \<not> fgt a b \<Longrightarrow> fgt a z \<Longrightarrow> fgt c a"
  by (cases a; cases b; cases c; cases z) simp_all

subsection \<open>The variance of two players of the same rating and deviation 350\<close>

lemma compute_score_var_equal_ratings:
  assumes "rating_m p = r" and "rd_m p = 350"
  shows "compute_score_var p r 350 = Fin (30625 / 2)"
  using assms
  by (simp add: compute_score_var_def Let_def fsub_def pow10_def round32_0 round64_1 round32_1
      round32_2 round32_4 round32_quarter round32_sixteenth round32_122500 round32_245000
      round32_var)

text \<open>
  There no operation rounds, and the computed variance is the variance of the
  specification.
\<close>

lemma compute_score_var_equal_ratings_exact:
  assumes "rating_m p = r" and "rd_m p = 350"
  shows "compute_score_var p r 350 = Fin (score_variance r 350 r 350)"
proof -
  have "score_variance r 350 r 350 = 30625 / 2"
    by (simp add: score_variance_def Let_def power2_eq_square)
  then show ?thesis
    using compute_score_var_equal_ratings[OF assms] by simp
qed

subsection \<open>The variance across a rating gap of 10000 points or more\<close>

lemma ten_powr_small:
  assumes "y \<le> - 25"
  shows "0 < 10 powr y \<and> 10 powr y \<le> pow2 (- 83)"
proof -
  have "(10 :: real) powr y \<le> 10 powr (- 25)"
    using assms by (intro powr_mono) simp_all
  also have "(10 :: real) powr (- 25) = 1 / 10 ^ 25"
    by (simp add: powr_minus_divide)
  also have "\<dots> \<le> pow2 (- 83)"
    by (simp add: pow2_def)
  finally show ?thesis by simp
qed

lemma pow10_small:
  assumes "y \<le> - 25"
  shows "\<exists>t. pow10 (Fin y) = Fin t \<and> 0 \<le> t \<and> t \<le> pow2 (- 83)"
proof -
  from ten_powr_small[OF assms] have "0 \<le> 10 powr y" and "10 powr y \<le> pow2 (- 83)"
    by simp_all
  then obtain d where d: "round64 (10 powr y) = Fin d" "0 \<le> d" "d \<le> pow2 (- 83)"
    unfolding round64_def using round_to_le_pow2[of "10 powr y" "- 83" "- 1022" 1023 53]
    by auto
  obtain t where t: "round32 d = Fin t" "0 \<le> t" "t \<le> pow2 (- 83)"
    unfolding round32_def using round_to_le_pow2[of d "- 83" "- 126" 127 24] d(2,3)
    by auto
  show ?thesis
    using d(1) t by (simp add: pow10_def)
qed

lemma fmul_zero: "\<not> fgt (fmul (Fin 0) z) (Fin 0)"
  by (cases z) (simp_all add: round32_0)

lemma var_of_small_pow:
  assumes "0 \<le> t" and "t \<le> pow2 (- 83)"
  shows "\<not> fgt (fmul (fmul (fdiv (Fin t) (fmul (fadd (Fin 1) (Fin t)) (fadd (Fin 1) (Fin t))))
                         (fdiv (Fin t) (fmul (fadd (Fin 1) (Fin t)) (fadd (Fin 1) (Fin t)))))
                   z) (Fin 0)"
proof -
  have "pow2 (- 83) < pow2 (- 24)"
    by (simp add: pow2_def)
  then have one: "round32 (1 + t) = Fin 1"
    using assms by (simp add: round32_one_plus)
  obtain u where u: "round32 t = Fin u" "0 \<le> u" "u \<le> pow2 (- 83)"
    unfolding round32_def using round_to_le_pow2[of t "- 83" "- 126" 127 24] assms
    by auto
  have "u * u \<le> pow2 (- 83) * pow2 (- 83)"
    using u(2,3) by (intro mult_mono) simp_all
  also have "\<dots> < pow2 (- 150)"
    by (simp add: pow2_def)
  finally have sq: "round32 (u * u) = Fin 0"
    unfolding round32_def using u(2) by (intro round_to_tiny) simp_all
  show ?thesis
    by (simp add: one round32_1 u(1) sq fmul_zero)
qed

lemma compute_score_var_gap:
  assumes "fdiv (fsub (Fin (rating_m p)) (Fin opp_rating)) (Fin 400) = Fin y" and "y \<le> - 25"
  shows "\<not> fgt (compute_score_var p opp_rating opp_rd) (Fin 0)"
proof -
  from pow10_small[OF assms(2)] obtain t
    where t: "pow10 (Fin y) = Fin t" "0 \<le> t" "t \<le> pow2 (- 83)"
    by blast
  show ?thesis
    using var_of_small_pow[OF t(2,3)] by (simp add: compute_score_var_def Let_def assms(1) t(1))
qed

lemma compute_score_var_10000:
  assumes "rating_m p = 0"
  shows "fgt (compute_score_var p 10000 opp_rd) (Fin 0) = False"
proof -
  have "fdiv (fsub (Fin (rating_m p)) (Fin 10000)) (Fin 400) = Fin (- 25)"
    using assms by (simp add: fsub_def round32_m10000 round32_m25)
  then show ?thesis
    using compute_score_var_gap[of p 10000 "- 25" opp_rd] by simp
qed

lemma compute_score_var_12000:
  assumes "rating_m p = 0"
  shows "fgt (compute_score_var p 12000 opp_rd) (Fin 0) = False"
proof -
  have "fdiv (fsub (Fin (rating_m p)) (Fin 12000)) (Fin 400) = Fin (- 30)"
    using assms by (simp add: fsub_def round32_m12000 round32_m30)
  then show ?thesis
    using compute_score_var_gap[of p 12000 "- 30" opp_rd] by simp
qed

text \<open>In exact arithmetic the variance of the specification is positive there.\<close>

lemma score_variance_pos:
  assumes "0 < rd"
  shows "0 < score_variance rating rd opponent_rating opponent_rd"
proof -
  let ?p = "10 powr ((rating - opponent_rating) / 400)"
  have p: "0 < ?p" by simp
  then have "0 < 1 + ?p" by (simp add: add_pos_pos)
  then have "0 < (1 + ?p)\<^sup>2" by (rule zero_less_power)
  with p have "0 < ?p / (1 + ?p)\<^sup>2" by (rule divide_pos_pos)
  then have f: "0 < (?p / (1 + ?p)\<^sup>2)\<^sup>2" by (rule zero_less_power)
  have "0 < rd\<^sup>2" using assms by simp
  then have "0 < rd\<^sup>2 + opponent_rd\<^sup>2" by (simp add: add_pos_nonneg)
  with f show ?thesis
    by (simp add: score_variance_def Let_def)
qed

section \<open>Runs and what every reachable state satisfies\<close>

lemma ex_run: "run ex_calls (LowVolRanker_ctor True) = Inr ex_state"
  by (simp add: ex_calls_def ex_state_def LowVolRanker_ctor_def addPlayer_def Player_ctor_def
      float_to_int_def receive_comp_def in_bounds_def update_calls_def apply_update_def
      update_eq get_rating_def get_rd_def Let_def)

lemma gap_run: "run gap_calls (LowVolRanker_ctor True) = Inr gap_state"
  by (simp add: gap_calls_def gap_state_def LowVolRanker_ctor_def addPlayer_def Player_ctor_def
      float_to_int_def)

lemma far_run: "run far_calls (LowVolRanker_ctor False) = Inr far_state"
  by (simp add: far_calls_def far_state_def LowVolRanker_ctor_def addPlayer_def Player_ctor_def
      float_to_int_def)

lemma apply_update_rd:
  assumes "\<forall>p\<in>set ps. rd_m p = 350" and "fst call < length ps"
  shows "\<forall>p\<in>set (apply_update ps call). rd_m p = 350"
proof -
  obtain i sc r d where call: "call = (i, sc, r, d)"
    by (cases call) auto
  have "rd_m (update (ps ! i) sc r d) = 350"
    using assms call by (simp add: update_eq)
  moreover have "set (ps[i := update (ps ! i) sc r d]) \<subseteq> insert (update (ps ! i) sc r d) (set ps)"
    by (rule set_update_subset_insert)
  ultimately show ?thesis
    using assms(1) call by (auto simp: apply_update_def)
qed

lemma apply_update_length: "length (apply_update ps call) = length ps"
  by (cases call) (simp add: apply_update_def)

lemma step_rd_inv:
  assumes inv: "rd_inv s" and st: "step c s = Inr s'"
  shows "rd_inv s'"
proof (cases c)
  case (AddPlayer rating rd)
  then have "addPlayer rating rd s = Inr s'"
    using st by simp
  from addPlayer_Inr[OF this] show ?thesis
    using inv by (auto simp: rd_inv_def Player_ctor_def)
next
  case (ReceiveComp a b sc u)
  show ?thesis
  proof (cases u)
    case False
    then show ?thesis
      using inv st ReceiveComp by (auto simp: rd_inv_def receive_comp_def)
  next
    case True
    then have ib: "nat a < length (players_m s)" "nat b < length (players_m s)"
      using st ReceiveComp by (auto simp: receive_comp_def Let_def in_bounds_def split: if_splits)
    let ?ps = "players_m s"
    let ?c1 = "(nat a, sc, get_rating (?ps ! nat b), get_rd (?ps ! nat b))"
    let ?ps1 = "apply_update ?ps ?c1"
    let ?c2 = "(nat b, 1 - sc, get_rating (?ps1 ! nat a), get_rd (?ps1 ! nat a))"
    have p0: "\<forall>p\<in>set ?ps. rd_m p = 350"
      using inv by (simp add: rd_inv_def)
    have "fst ?c1 < length ?ps"
      using ib(1) by simp
    with p0 have p1: "\<forall>p\<in>set ?ps1. rd_m p = 350"
      by (rule apply_update_rd)
    have "fst ?c2 < length ?ps1"
      using ib(2) by (simp add: apply_update_length)
    with p1 have p2: "\<forall>p\<in>set (apply_update ?ps1 ?c2). rd_m p = 350"
      by (rule apply_update_rd)
    have "players_m s' = apply_update ?ps1 ?c2"
      using st ReceiveComp True ib
      by (auto simp: receive_comp_def update_calls_def Let_def split: if_splits)
    then show ?thesis
      using p2 by (simp add: rd_inv_def)
  qed
qed (use inv st in \<open>auto simp: rd_inv_def adjust_ratings_def dump_ratings_def
       split: sum.splits\<close>)

lemma run_rd_inv: "rd_inv s \<Longrightarrow> run ops s = Inr s' \<Longrightarrow> rd_inv s'"
proof (induction ops arbitrary: s)
  case Nil
  then show ?case by simp
next
  case (Cons c cs)
  then show ?case
    by (auto split: sum.splits dest: step_rd_inv)
qed

lemma reachable_rd_inv:
  assumes "run ops (LowVolRanker_ctor avoid_twice) = Inr s"
  shows "rd_inv s"
proof -
  have "rd_inv (LowVolRanker_ctor avoid_twice)"
    by (simp add: rd_inv_def LowVolRanker_ctor_def)
  then show ?thesis
    using assms by (rule run_rd_inv)
qed

lemma rd_inv_positive_rd: "rd_inv s \<Longrightarrow> positive_rd s"
  by (simp add: rd_inv_def positive_rd_def rd_at_def get_rd_def eligible_def list_all_iff)

text \<open>Every reachable state has eligible players of positive deviation only.\<close>

lemma reachable_positive_rd:
  assumes "run ops (LowVolRanker_ctor avoid_twice) = Inr s"
  shows "positive_rd s"
  using assms by (intro rd_inv_positive_rd reachable_rd_inv)

section \<open>Selecting the next comparison\<close>

text \<open>
  The scan over increasing indices, for a comparison that is a strict order and linear
  where it matters: either no index is eligible with a value above the start value and
  the start id comes back, or the result is the first eligible index of greatest value
  among those above the start value.
\<close>

lemma scan_max_char:
  assumes ord: "scan_order gt" and srt: "sorted_wrt (<) js"
  shows "((\<forall>j\<in>set js. \<not> (ok j \<and> gt (f j) v)) \<and> scan_max ok f gt js m v = m)
       \<or> (\<exists>i\<in>set js. ok i \<and> gt (f i) v \<and> scan_max ok f gt js m v = int i
             \<and> (\<forall>j\<in>set js. ok j \<and> gt (f j) v \<longrightarrow> \<not> gt (f j) (f i))
             \<and> (\<forall>j\<in>set js. ok j \<and> gt (f j) v \<and> j < i \<longrightarrow> gt (f i) (f j)))"
  using srt
proof (induction js arbitrary: m v)
  case Nil
  then show ?case by simp
next
  case (Cons i js)
  have irr: "\<And>a. \<not> gt a a"
    and tr: "\<And>a b c. gt a b \<Longrightarrow> gt b c \<Longrightarrow> gt a c"
    and lin: "\<And>a b c z. gt c b \<Longrightarrow> \<not> gt a b \<Longrightarrow> gt a z \<Longrightarrow> gt c a"
    using ord unfolding scan_order_def by blast+
  have srt': "sorted_wrt (<) js" and later: "\<forall>j\<in>set js. i < j"
    using Cons.prems by auto
  show ?case
  proof (cases "ok i \<and> gt (f i) v")
    case True
    then have eq: "scan_max ok f gt (i # js) m v = scan_max ok f gt js (int i) (f i)"
      by simp
    from Cons.IH[OF srt', of "f i" "int i"] show ?thesis
    proof
      assume a: "(\<forall>j\<in>set js. \<not> (ok j \<and> gt (f j) (f i)))
                  \<and> scan_max ok f gt js (int i) (f i) = int i"
      have 1: "\<forall>j\<in>set (i # js). ok j \<and> gt (f j) v \<longrightarrow> \<not> gt (f j) (f i)"
        using a irr by auto
      have 2: "\<forall>j\<in>set (i # js). ok j \<and> gt (f j) v \<and> j < i \<longrightarrow> gt (f i) (f j)"
        using later by auto
      have "\<exists>k\<in>set (i # js). ok k \<and> gt (f k) v \<and> scan_max ok f gt (i # js) m v = int k
             \<and> (\<forall>j\<in>set (i # js). ok j \<and> gt (f j) v \<longrightarrow> \<not> gt (f j) (f k))
             \<and> (\<forall>j\<in>set (i # js). ok j \<and> gt (f j) v \<and> j < k \<longrightarrow> gt (f k) (f j))"
        using True eq a 1 2 by (intro bexI[of _ i]) simp_all
      then show ?thesis by blast
    next
      assume "\<exists>k\<in>set js. ok k \<and> gt (f k) (f i) \<and> scan_max ok f gt js (int i) (f i) = int k
             \<and> (\<forall>j\<in>set js. ok j \<and> gt (f j) (f i) \<longrightarrow> \<not> gt (f j) (f k))
             \<and> (\<forall>j\<in>set js. ok j \<and> gt (f j) (f i) \<and> j < k \<longrightarrow> gt (f k) (f j))"
      then obtain k where k: "k \<in> set js" "ok k" "gt (f k) (f i)"
          "scan_max ok f gt js (int i) (f i) = int k"
          "\<forall>j\<in>set js. ok j \<and> gt (f j) (f i) \<longrightarrow> \<not> gt (f j) (f k)"
          "\<forall>j\<in>set js. ok j \<and> gt (f j) (f i) \<and> j < k \<longrightarrow> gt (f k) (f j)"
        by blast
      have kv: "gt (f k) v"
        using k(3) True tr by blast
      have ik: "\<not> gt (f i) (f k)"
        using k(3) tr irr by blast
      have 1: "\<forall>j\<in>set (i # js). ok j \<and> gt (f j) v \<longrightarrow> \<not> gt (f j) (f k)"
      proof (intro ballI impI)
        fix j assume j: "j \<in> set (i # js)" "ok j \<and> gt (f j) v"
        show "\<not> gt (f j) (f k)"
        proof (cases "j = i")
          case True
          then show ?thesis using ik by simp
        next
          case False
          then have js: "j \<in> set js" using j(1) by simp
          show ?thesis
          proof (cases "gt (f j) (f i)")
            case True
            then show ?thesis using k(5) js j(2) by blast
          next
            case False
            then show ?thesis using tr k(3) by blast
          qed
        qed
      qed
      have 2: "\<forall>j\<in>set (i # js). ok j \<and> gt (f j) v \<and> j < k \<longrightarrow> gt (f k) (f j)"
      proof (intro ballI impI)
        fix j assume j: "j \<in> set (i # js)" "ok j \<and> gt (f j) v \<and> j < k"
        show "gt (f k) (f j)"
        proof (cases "j = i")
          case True
          then show ?thesis using k(3) by simp
        next
          case False
          then have js: "j \<in> set js" using j(1) by simp
          show ?thesis
          proof (cases "gt (f j) (f i)")
            case True
            then show ?thesis using k(6) js j(2) by blast
          next
            case False
            then show ?thesis using lin[OF k(3) False] j(2) by blast
          qed
        qed
      qed
      have "\<exists>k\<in>set (i # js). ok k \<and> gt (f k) v \<and> scan_max ok f gt (i # js) m v = int k
             \<and> (\<forall>j\<in>set (i # js). ok j \<and> gt (f j) v \<longrightarrow> \<not> gt (f j) (f k))
             \<and> (\<forall>j\<in>set (i # js). ok j \<and> gt (f j) v \<and> j < k \<longrightarrow> gt (f k) (f j))"
        using k(1,2,4) kv eq 1 2 by (intro bexI[of _ k]) simp_all
      then show ?thesis by blast
    qed
  next
    case False
    have eq: "scan_max ok f gt (i # js) m v = scan_max ok f gt js m v"
      using False by auto
    from Cons.IH[OF srt', of v m] show ?thesis
    proof
      assume "(\<forall>j\<in>set js. \<not> (ok j \<and> gt (f j) v)) \<and> scan_max ok f gt js m v = m"
      then show ?thesis
        using eq False by auto
    next
      assume "\<exists>k\<in>set js. ok k \<and> gt (f k) v \<and> scan_max ok f gt js m v = int k
             \<and> (\<forall>j\<in>set js. ok j \<and> gt (f j) v \<longrightarrow> \<not> gt (f j) (f k))
             \<and> (\<forall>j\<in>set js. ok j \<and> gt (f j) v \<and> j < k \<longrightarrow> gt (f k) (f j))"
      then obtain k where k: "k \<in> set js" "ok k" "gt (f k) v"
          "scan_max ok f gt js m v = int k"
          "\<forall>j\<in>set js. ok j \<and> gt (f j) v \<longrightarrow> \<not> gt (f j) (f k)"
          "\<forall>j\<in>set js. ok j \<and> gt (f j) v \<and> j < k \<longrightarrow> gt (f k) (f j)"
        by blast
      have "\<exists>k\<in>set (i # js). ok k \<and> gt (f k) v \<and> scan_max ok f gt (i # js) m v = int k
             \<and> (\<forall>j\<in>set (i # js). ok j \<and> gt (f j) v \<longrightarrow> \<not> gt (f j) (f k))
             \<and> (\<forall>j\<in>set (i # js). ok j \<and> gt (f j) v \<and> j < k \<longrightarrow> gt (f k) (f j))"
        using k eq False by (intro bexI[of _ k]) auto
      then show ?thesis by blast
    qed
  qed
qed

lemma scan_order_real: "scan_order (\<lambda>x y :: real. y < x)"
  by (auto simp: scan_order_def)

lemma scan_order_fgt: "scan_order fgt"
  unfolding scan_order_def using fgt_irrefl fgt_trans fgt_linear by blast

lemma best_player_loop_scan:
  "best_player_loop s js m v
     = scan_max (\<lambda>i. \<not> in_avoid s i) (rd_at s) (\<lambda>x y. y < x) js m v"
  by (induction js arbitrary: m v) (simp_all add: rd_at_def)

lemma best_opp_loop_scan:
  assumes "in_bounds (players_m s) a"
  shows "best_opp_loop s a js m v
           = Inr (scan_max (\<lambda>i. int i \<noteq> a \<and> \<not> in_avoid s i) (var_at s a) fgt js m v)"
  using assms
  by (induction js arbitrary: m v) (auto simp: var_at_def Let_def)

text \<open>
  With no candidate among the indices the loop of \<^verbatim>\<open>get_best_opp\<close> never reads
  \<^verbatim>\<open>players_[id]\<close>, whatever \<^verbatim>\<open>id\<close> is.
\<close>

lemma best_opp_loop_none:
  assumes "\<forall>j\<in>set js. \<not> (int j \<noteq> a \<and> \<not> in_avoid s j)"
  shows "best_opp_loop s a js m v = Inr m"
  using assms by (induction js arbitrary: m v) auto

text \<open>\<^verbatim>\<open>get_best_player\<close> returns \<open>-1\<close> or an eligible index, in any state.\<close>

lemma get_best_player_range:
  "get_best_player s = - 1 \<or> (\<exists>i\<in>set (eligible s). get_best_player s = int i)"
proof -
  have "sorted_wrt (<) [0..<length (players_m s)]" by simp
  from scan_max_char[OF scan_order_real this, where ok = "\<lambda>i. \<not> in_avoid s i"
      and f = "rd_at s" and v = 0 and m = "- 1"]
  show ?thesis
    by (auto simp: get_best_player_def best_player_loop_scan eligible_def)
qed

text \<open>
  The first pass on a state whose eligible players have a positive deviation.
\<close>

lemma get_best_player_positive_rd:
  assumes "positive_rd s"
  shows "first_slot_spec s (get_best_player s)"
proof -
  let ?js = "[0..<length (players_m s)]"
  have pos: "\<forall>j\<in>set ?js. \<not> in_avoid s j \<longrightarrow> 0 < rd_at s j"
    using assms by (simp add: positive_rd_def eligible_def list_all_iff)
  have el: "set (eligible s) = {j \<in> set ?js. \<not> in_avoid s j}"
    by (auto simp: eligible_def)
  have "sorted_wrt (<) ?js" by simp
  from scan_max_char[OF scan_order_real this, where ok = "\<lambda>i. \<not> in_avoid s i"
      and f = "rd_at s" and v = 0 and m = "- 1"]
  show ?thesis
  proof
    assume a: "(\<forall>j\<in>set ?js. \<not> (\<not> in_avoid s j \<and> 0 < rd_at s j))
                \<and> scan_max (\<lambda>i. \<not> in_avoid s i) (rd_at s) (\<lambda>x y. y < x) ?js (- 1) 0 = - 1"
    then have "\<forall>j\<in>set ?js. in_avoid s j"
      using pos by blast
    then have "eligible s = []"
      by (simp add: eligible_def filter_empty_conv)
    then show ?thesis
      using a by (simp add: first_slot_spec_def get_best_player_def best_player_loop_scan)
  next
    assume "\<exists>i\<in>set ?js. \<not> in_avoid s i \<and> 0 < rd_at s i
        \<and> scan_max (\<lambda>i. \<not> in_avoid s i) (rd_at s) (\<lambda>x y. y < x) ?js (- 1) 0 = int i
        \<and> (\<forall>j\<in>set ?js. \<not> in_avoid s j \<and> 0 < rd_at s j \<longrightarrow> \<not> rd_at s i < rd_at s j)
        \<and> (\<forall>j\<in>set ?js. \<not> in_avoid s j \<and> 0 < rd_at s j \<and> j < i \<longrightarrow> rd_at s j < rd_at s i)"
    then obtain i where i: "i \<in> set ?js" "\<not> in_avoid s i"
        "get_best_player s = int i"
        "\<forall>j\<in>set ?js. \<not> in_avoid s j \<and> 0 < rd_at s j \<longrightarrow> \<not> rd_at s i < rd_at s j"
        "\<forall>j\<in>set ?js. \<not> in_avoid s j \<and> 0 < rd_at s j \<and> j < i \<longrightarrow> rd_at s j < rd_at s i"
      by (auto simp: get_best_player_def best_player_loop_scan)
    have mem: "i \<in> set (eligible s)" using i(1,2) el by simp
    have ne: "eligible s \<noteq> []" using mem by auto
    have 1: "\<forall>j\<in>set (eligible s). rd_at s j \<le> rd_at s i"
      using i(4) pos el by (auto simp: not_less)
    have 2: "\<forall>j\<in>set (eligible s). j < i \<longrightarrow> rd_at s j < rd_at s i"
      using i(5) pos el by auto
    have "\<exists>k\<in>set (eligible s). get_best_player s = int k
              \<and> (\<forall>j\<in>set (eligible s). rd_at s j \<le> rd_at s k)
              \<and> (\<forall>j\<in>set (eligible s). j < k \<longrightarrow> rd_at s j < rd_at s k)"
      using i(3) mem 1 2 by (intro bexI[of _ i]) simp_all
    then show ?thesis
      using ne by (simp add: first_slot_spec_def)
  qed
qed

lemma positive_candidates_iff:
  "j \<in> set (positive_candidates s a)
     \<longleftrightarrow> j \<in> set [0..<length (players_m s)]
          \<and> (int j \<noteq> a \<and> \<not> in_avoid s j) \<and> fgt (var_at s a j) (Fin 0)"
  by (simp add: positive_candidates_def candidates_def conj_ac)

text \<open>The second pass, for any first entity inside the vector, in any state.\<close>

lemma get_best_opp_spec:
  assumes "in_bounds (players_m s) a"
  shows "\<exists>c. get_best_opp s a = Inr c \<and> second_slot_spec s a c"
proof -
  define js where "js = [0..<length (players_m s)]"
  define ok where "ok = (\<lambda>i. int i \<noteq> a \<and> \<not> in_avoid s i)"
  define f where "f = var_at s a"
  define c where "c = scan_max ok f fgt js (- 1) (Fin 0)"
  define pc where "pc = positive_candidates s a"
  have res: "get_best_opp s a = Inr c"
    using assms by (simp add: get_best_opp_def best_opp_loop_scan c_def ok_def f_def js_def)
  have mem: "\<And>j. j \<in> set pc \<longleftrightarrow> j \<in> set js \<and> ok j \<and> fgt (f j) (Fin 0)"
    unfolding pc_def js_def ok_def f_def by (rule positive_candidates_iff)
  have srt: "sorted_wrt (<) js"
    by (simp add: js_def)
  have spec: "if pc = [] then c = - 1
              else (\<exists>i\<in>set pc. c = int i
                      \<and> (\<forall>j\<in>set pc. \<not> fgt (f j) (f i))
                      \<and> (\<forall>j\<in>set pc. j < i \<longrightarrow> fgt (f i) (f j)))"
    using scan_max_char[OF scan_order_fgt srt, where ok = ok and f = f and v = "Fin 0"
        and m = "- 1"]
  proof
    assume a: "(\<forall>j\<in>set js. \<not> (ok j \<and> fgt (f j) (Fin 0)))
                 \<and> scan_max ok f fgt js (- 1) (Fin 0) = - 1"
    have "pc = []"
    proof (cases pc)
      case Nil
      then show ?thesis .
    next
      case (Cons j rest)
      then have "j \<in> set pc" by simp
      then show ?thesis using mem a by blast
    qed
    then show ?thesis
      using a by (simp add: c_def)
  next
    assume "\<exists>i\<in>set js. ok i \<and> fgt (f i) (Fin 0) \<and> scan_max ok f fgt js (- 1) (Fin 0) = int i
        \<and> (\<forall>j\<in>set js. ok j \<and> fgt (f j) (Fin 0) \<longrightarrow> \<not> fgt (f j) (f i))
        \<and> (\<forall>j\<in>set js. ok j \<and> fgt (f j) (Fin 0) \<and> j < i \<longrightarrow> fgt (f i) (f j))"
    then obtain i where i: "i \<in> set js" "ok i" "fgt (f i) (Fin 0)" "c = int i"
        and mx: "\<forall>j\<in>set js. ok j \<and> fgt (f j) (Fin 0) \<longrightarrow> \<not> fgt (f j) (f i)"
        and fst: "\<forall>j\<in>set js. ok j \<and> fgt (f j) (Fin 0) \<and> j < i \<longrightarrow> fgt (f i) (f j)"
      unfolding c_def by blast
    have ipc: "i \<in> set pc"
      using i(1,2,3) mem by simp
    then have ne: "pc \<noteq> []" by auto
    have 1: "\<forall>j\<in>set pc. \<not> fgt (f j) (f i)"
      using mx mem by simp
    have 2: "\<forall>j\<in>set pc. j < i \<longrightarrow> fgt (f i) (f j)"
      using fst mem by simp
    have "\<exists>k\<in>set pc. c = int k
              \<and> (\<forall>j\<in>set pc. \<not> fgt (f j) (f k))
              \<and> (\<forall>j\<in>set pc. j < k \<longrightarrow> fgt (f k) (f j))"
      using i(4) ipc 1 2 by (intro bexI[of _ i]) simp_all
    then show ?thesis
      using ne by simp
  qed
  then have "second_slot_spec s a c"
    unfolding second_slot_spec_def pc_def f_def .
  with res show ?thesis by blast
qed

lemma second_slot_sentinel:
  assumes "second_slot_spec s a c"
  shows "c = - 1 \<longleftrightarrow> positive_candidates s a = []"
  using assms by (auto simp: second_slot_spec_def split: if_splits)

lemma first_slot_sentinel:
  assumes "first_slot_spec s a"
  shows "a = - 1 \<longleftrightarrow> eligible s = []"
  using assms by (auto simp: first_slot_spec_def split: if_splits)

lemma candidates_length:
  assumes "i \<in> set (eligible s)"
  shows "Suc (length (candidates s (int i))) = length (eligible s)"
proof -
  have d: "distinct (eligible s)"
    by (simp add: eligible_def)
  have c: "candidates s (int i) = filter (\<lambda>j. j \<noteq> i) (eligible s)"
    by (simp add: candidates_def eligible_def conj_commute)
  have "{x. x = i} \<inter> set (eligible s) = {i}"
    using assms by auto
  then have "length (filter (\<lambda>j. j = i) (eligible s)) = 1"
    using distinct_length_filter[OF d, of "\<lambda>j. j = i"] by simp
  moreover have "length (filter (\<lambda>j. j = i) (eligible s))
                   + length (filter (\<lambda>j. \<not> j = i) (eligible s)) = length (eligible s)"
    by (rule sum_length_filter_compl)
  ultimately show ?thesis
    using c by simp
qed

text \<open>
  \<^verbatim>\<open>get_next_comp\<close> on a state whose eligible players have a positive deviation.
\<close>

lemma get_next_comp_total:
  assumes "positive_rd s"
  shows "\<exists>a c. get_next_comp s = Inr (a, c)
           \<and> a = get_best_player s
           \<and> first_slot_spec s a
           \<and> (a = - 1 \<longleftrightarrow> eligible s = [])
           \<and> (c = - 1 \<longleftrightarrow> positive_candidates s a = [])
           \<and> (length (eligible s) < 2 \<longrightarrow> c = - 1)"
proof -
  let ?a = "get_best_player s"
  have fs: "first_slot_spec s ?a"
    using assms by (rule get_best_player_positive_rd)
  then have a_iff: "?a = - 1 \<longleftrightarrow> eligible s = []"
    by (rule first_slot_sentinel)
  show ?thesis
  proof (cases "eligible s = []")
    case True
    then have none: "\<forall>j\<in>set [0..<length (players_m s)]. \<not> (int j \<noteq> ?a \<and> \<not> in_avoid s j)"
      by (auto simp: eligible_def filter_empty_conv)
    then have "get_best_opp s ?a = Inr (- 1)"
      unfolding get_best_opp_def by (rule best_opp_loop_none)
    moreover have "positive_candidates s ?a = []"
      using none by (simp add: positive_candidates_def candidates_def filter_empty_conv)
    ultimately show ?thesis
      using True fs a_iff by (simp add: get_next_comp_def Let_def)
  next
    case False
    then obtain i where i: "i \<in> set (eligible s)" "?a = int i"
      using fs by (auto simp: first_slot_spec_def)
    then have ib: "in_bounds (players_m s) ?a"
      by (simp add: in_bounds_def eligible_def)
    from get_best_opp_spec[OF ib] obtain c
      where c: "get_best_opp s ?a = Inr c" "second_slot_spec s ?a c"
      by blast
    have c_iff: "c = - 1 \<longleftrightarrow> positive_candidates s ?a = []"
      using c(2) by (rule second_slot_sentinel)
    have l: "Suc (length (candidates s ?a)) = length (eligible s)"
      using candidates_length[OF i(1)] i(2) by simp
    have "length (eligible s) < 2 \<longrightarrow> candidates s ?a = []"
      using l by (cases "candidates s ?a") auto
    then have few: "length (eligible s) < 2 \<longrightarrow> c = - 1"
      using c_iff by (auto simp: positive_candidates_def)
    show ?thesis
      using c(1) fs a_iff c_iff few by (simp add: get_next_comp_def Let_def)
  qed
qed

lemma gap_next: "get_next_comp gap_state = Inr (0, - 1)"
  by (simp add: get_next_comp_def get_best_player_def get_best_opp_def gap_state_def in_avoid_def
      get_rd_def get_rating_def upt_rec in_bounds_def Let_def compute_score_var_10000)

lemma far_next: "get_next_comp far_state = Inr (0, - 1)"
  by (simp add: get_next_comp_def get_best_player_def get_best_opp_def far_state_def in_avoid_def
      get_rd_def get_rating_def upt_rec in_bounds_def Let_def compute_score_var_12000)

lemma ex_three_next: "get_next_comp ex_three = Inr (0, 1)"
  by (simp add: get_next_comp_def get_best_player_def get_best_opp_def ex_three_def in_avoid_def
      get_rd_def get_rating_def upt_rec in_bounds_def Let_def
      compute_score_var_equal_ratings[where r = 0])

text \<open>
  C4, as stated: in every reachable state the second slot of \<^verbatim>\<open>get_next_comp\<close> is
  the sentinel \<open>-1\<close> exactly when fewer than two entities are eligible. After
  \<^verbatim>\<open>addPlayer(0, 0)\<close> and \<^verbatim>\<open>addPlayer(0, 10000)\<close> both players are eligible, and the
  code returns \<open>(0, -1)\<close>: across the gap of 10000 rating points \<^verbatim>\<open>p10\<close> is about
  \<open>10^(-25)\<close>, \<^verbatim>\<open>frac * frac\<close> underflows to 0 in single precision, and the test
  \<^verbatim>\<open>var > max_var\<close> fails on \<open>0 > 0\<close>.
\<close>

theorem get_next_comp_gap_counterexample:
  "run gap_calls (LowVolRanker_ctor True) = Inr gap_state
   \<and> eligible gap_state = [0, 1]
   \<and> get_next_comp gap_state = Inr (0, - 1)"
  by (simp add: gap_run gap_next) (simp add: eligible_def gap_state_def in_avoid_def upt_rec)

text \<open>
  C4, amended: in every state the ranker can reach, \<^verbatim>\<open>get_next_comp\<close> returns a pair
  without reading outside the vector of players. The first slot is the sentinel \<open>-1\<close>
  exactly when no entity is eligible. The second slot is \<open>-1\<close> exactly when no eligible
  entity other than the first has a computed variance strictly greater than 0, which
  includes every state with fewer than two eligible entities.
\<close>

theorem get_next_comp_never_faults:
  assumes "run ops (LowVolRanker_ctor avoid_twice) = Inr s"
  shows "\<exists>a c. get_next_comp s = Inr (a, c)
           \<and> (a = - 1 \<longleftrightarrow> eligible s = [])
           \<and> (c = - 1 \<longleftrightarrow> positive_candidates s a = [])
           \<and> (length (eligible s) < 2 \<longrightarrow> c = - 1)"
proof -
  have "positive_rd s"
    using assms by (intro rd_inv_positive_rd reachable_rd_inv)
  from get_next_comp_total[OF this] show ?thesis
    by blast
qed

theorem get_next_comp_never_faults_witness:
  "run ex_calls (LowVolRanker_ctor True) = Inr ex_state
   \<and> (\<exists>a c. get_next_comp ex_state = Inr (a, c)
         \<and> (a = - 1 \<longleftrightarrow> eligible ex_state = [])
         \<and> (c = - 1 \<longleftrightarrow> positive_candidates ex_state a = [])
         \<and> (length (eligible ex_state) < 2 \<longrightarrow> c = - 1))"
  using get_next_comp_never_faults[OF ex_run] ex_run by simp

lemma mixed_rd_positive: "positive_rd mixed_rd_state"
  by (simp add: positive_rd_def eligible_def mixed_rd_state_def in_avoid_def Player_eq_index_def
      rd_at_def get_rd_def upt_rec)

lemma mixed_rd_best: "get_best_player mixed_rd_state = 2"
  by (simp add: get_best_player_def mixed_rd_state_def in_avoid_def Player_eq_index_def
      get_rd_def upt_rec)

text \<open>
  C5. In every state whose eligible players have a positive deviation, which every
  state the ranker can reach is (\<open>reachable_positive_rd\<close>), \<^verbatim>\<open>get_next_comp\<close>
  returns a pair whose first slot is what \<^verbatim>\<open>get_best_player\<close> returns: the eligible
  player of highest deviation, the lowest index among ties, and the sentinel \<open>-1\<close>
  when no player is eligible (an empty collection included).
\<close>

theorem first_slot_highest_rd:
  assumes "positive_rd s"
  shows "\<exists>a c. get_next_comp s = Inr (a, c) \<and> a = get_best_player s \<and> first_slot_spec s a"
  using get_next_comp_total[OF assms] by blast

theorem first_slot_highest_rd_witness:
  "positive_rd mixed_rd_state
   \<and> get_best_player mixed_rd_state = 2
   \<and> (\<exists>c. get_next_comp mixed_rd_state = Inr (2, c))
   \<and> first_slot_spec mixed_rd_state 2"
  using first_slot_highest_rd[OF mixed_rd_positive] mixed_rd_positive mixed_rd_best
  by auto

text \<open>
  C6, as stated: whenever a first entity was selected, the second slot is the candidate
  that maximises the variance \<open>frac\<^sup>2 \<cdot> (rd\<^sup>2 + opp_rd\<^sup>2)\<close>, and \<open>-1\<close> only
  when there is no candidate. After \<^verbatim>\<open>addPlayer(0, 0)\<close>, \<^verbatim>\<open>addPlayer(0, 12000)\<close> and
  \<^verbatim>\<open>addPlayer(0, 12000)\<close> the first slot is 0 and players 1 and 2 are candidates whose
  variance by the formula is positive, yet the variance the code computes for them is
  not above 0 and the second slot is \<open>-1\<close>.
\<close>

theorem second_slot_far_counterexample:
  "run far_calls (LowVolRanker_ctor False) = Inr far_state
   \<and> get_next_comp far_state = Inr (0, - 1)
   \<and> candidates far_state 0 = [1, 2]
   \<and> 0 < score_variance 0 350 12000 350
   \<and> \<not> fgt (var_at far_state 0 1) (Fin 0)
   \<and> \<not> fgt (var_at far_state 0 2) (Fin 0)"
  by (simp add: far_run far_next score_variance_pos)
     (simp add: candidates_def var_at_def far_state_def in_avoid_def upt_rec get_rating_def
        compute_score_var_12000)

text \<open>
  C6, amended: in every state in which a first entity was selected, the second slot is
  chosen among the candidates (not the first entity, not avoided) whose variance, as
  \<^verbatim>\<open>compute_score_var\<close> computes it in single precision on the first entity's model
  against the candidate's rating and deviation, is strictly greater than 0: it is the
  one of greatest computed variance, the lowest index among equals, and the sentinel
  \<open>-1\<close> when there is no such candidate.
\<close>

theorem second_slot_highest_variance:
  assumes "get_next_comp s = Inr (a, c)" and "a \<noteq> - 1"
  shows "second_slot_spec s a c"
proof -
  have a: "a = get_best_player s" and c: "get_best_opp s a = Inr c"
    using assms(1) by (auto simp: get_next_comp_def Let_def split: sum.splits)
  then have "in_bounds (players_m s) a"
    using get_best_player_range[of s] assms(2) by (auto simp: in_bounds_def eligible_def)
  from get_best_opp_spec[OF this] c show ?thesis
    by auto
qed

theorem second_slot_highest_variance_witness:
  "get_next_comp ex_three = Inr (0, 1)
   \<and> (0 :: int) \<noteq> - 1
   \<and> second_slot_spec ex_three 0 1"
  using second_slot_highest_variance[OF ex_three_next] ex_three_next by simp

section \<open>Receiving a comparison\<close>



lemma step_avoid:
  "step c s = Inr s' \<Longrightarrow>
     avoid_twice_m s' = avoid_twice_m s
     \<and> avoid_m s' = avoid_after (avoid_twice_m s) (avoid_m s) [c]"
  by (cases c)
     (auto simp: addPlayer_def receive_comp_def adjust_ratings_def dump_ratings_def Let_def
        avoid_after_def split: sum.splits if_splits)

lemma avoid_after_Cons:
  "avoid_after b av (c # cs) = avoid_after b (avoid_after b av [c]) cs"
  by (cases c) (auto simp: avoid_after_def split: option.splits)

lemma run_avoid:
  "run ops s = Inr s' \<Longrightarrow>
     avoid_twice_m s' = avoid_twice_m s
     \<and> avoid_m s' = avoid_after (avoid_twice_m s) (avoid_m s) ops"
proof (induction ops arbitrary: s)
  case Nil
  then show ?case by (simp add: avoid_after_def)
next
  case (Cons c cs)
  then obtain s1 where s1: "step c s = Inr s1" and r: "run cs s1 = Inr s'"
    by (auto split: sum.splits)
  show ?case
    using Cons.IH[OF r] step_avoid[OF s1] avoid_after_Cons[of "avoid_twice_m s" "avoid_m s" c cs]
    by simp
qed

lemma step_avoid_other:
  "step c s = Inr s' \<Longrightarrow> \<not> update_bearing c \<Longrightarrow> avoid_m s' = avoid_m s"
  by (cases c)
     (auto simp: addPlayer_def receive_comp_def adjust_ratings_def dump_ratings_def Let_def
        split: sum.splits if_splits)

text \<open>
  C8. After any sequence of calls on a new ranker: with \<^verbatim>\<open>avoid_twice = true\<close> the
  avoid-list holds exactly the two ids of the most recent \<^verbatim>\<open>receive_comp\<close> with
  \<^verbatim>\<open>update = true\<close>, and is empty when there was none; with \<^verbatim>\<open>avoid_twice =
  false\<close> it is empty; and a call that is not an update-bearing \<^verbatim>\<open>receive_comp\<close>
  leaves the avoid-list as it is.
\<close>

theorem avoid_set_invariant:
  assumes "run ops (LowVolRanker_ctor avoid_twice) = Inr s"
  shows "avoid_ids s =
           (if avoid_twice
            then (case last_update_comp ops of None \<Rightarrow> [] | Some (id1, id2) \<Rightarrow> [id1, id2])
            else [])
       \<and> (\<forall>c s'. step c s = Inr s' \<and> \<not> update_bearing c \<longrightarrow> avoid_m s' = avoid_m s)"
proof -
  have "avoid_m s = avoid_after avoid_twice [] ops"
    using run_avoid[OF assms] by (simp add: LowVolRanker_ctor_def)
  then have "avoid_ids s =
           (if avoid_twice
            then (case last_update_comp ops of None \<Rightarrow> [] | Some (id1, id2) \<Rightarrow> [id1, id2])
            else [])"
    by (simp add: avoid_ids_def avoid_after_def Player_ctor_def split: option.splits)
  then show ?thesis
    using step_avoid_other by blast
qed

theorem avoid_set_invariant_witness:
  "run ex_calls (LowVolRanker_ctor True) = Inr ex_state
   \<and> avoid_ids ex_state = [0, 1]
   \<and> last_update_comp ex_calls = Some (0, 1)
   \<and> step (ReceiveComp 2 0 0 False) ex_state
       = Inr (ex_state\<lparr>comps_m := comps_m ex_state @ [Comp 2 0 0]\<rparr>)
   \<and> \<not> update_bearing (ReceiveComp 2 0 0 False)
   \<and> avoid_m (ex_state\<lparr>comps_m := comps_m ex_state @ [Comp 2 0 0]\<rparr>) = avoid_m ex_state"
proof -
  have l: "last_update_comp ex_calls = Some (0, 1)"
    by (simp add: ex_calls_def)
  have st: "step (ReceiveComp 2 0 0 False) ex_state
              = Inr (ex_state\<lparr>comps_m := comps_m ex_state @ [Comp 2 0 0]\<rparr>)"
    by (simp add: receive_comp_def)
  have nb: "\<not> update_bearing (ReceiveComp 2 0 0 False)"
    by simp
  note inv = avoid_set_invariant[OF ex_run]
  have ids: "avoid_ids ex_state = [0, 1]"
    using inv l by simp
  have "step (ReceiveComp 2 0 0 False) ex_state
            = Inr (ex_state\<lparr>comps_m := comps_m ex_state @ [Comp 2 0 0]\<rparr>)
          \<and> \<not> update_bearing (ReceiveComp 2 0 0 False)
        \<longrightarrow> avoid_m (ex_state\<lparr>comps_m := comps_m ex_state @ [Comp 2 0 0]\<rparr>)
              = avoid_m ex_state"
    using inv by blast
  then have keep: "avoid_m (ex_state\<lparr>comps_m := comps_m ex_state @ [Comp 2 0 0]\<rparr>)
                     = avoid_m ex_state"
    using st nb by blast
  show ?thesis
    by (intro conjI ex_run ids l st nb keep)
qed

lemma step_comps:
  "step c s = Inr s' \<Longrightarrow> comps_m s' = comps_m s @ ledger_of [c]"
  by (cases c)
     (auto simp: addPlayer_def receive_comp_def adjust_ratings_def dump_ratings_def Let_def
        split: sum.splits if_splits)

lemma ledger_of_Cons: "ledger_of (c # cs) = ledger_of [c] @ ledger_of cs"
  by (cases c) simp_all

text \<open>
  C9. Over any sequence of calls that runs to its end, the ledger afterwards is the
  ledger before followed by one entry \<open>(id1, id2, score)\<close> for each call of
  \<^verbatim>\<open>receive_comp\<close>, in order and whatever its \<^verbatim>\<open>update\<close> flag; no other call adds
  an entry, and no call changes or removes an earlier one.
\<close>

theorem ledger_append_only:
  assumes "run ops s = Inr s'"
  shows "comps_m s' = comps_m s @ ledger_of ops"
  using assms
proof (induction ops arbitrary: s)
  case Nil
  then show ?case by simp
next
  case (Cons c cs)
  then obtain s1 where s1: "step c s = Inr s1" and r: "run cs s1 = Inr s'"
    by (auto split: sum.splits)
  have "comps_m s' = comps_m s1 @ ledger_of cs"
    using Cons.IH[OF r] .
  also have "comps_m s1 = comps_m s @ ledger_of [c]"
    using step_comps[OF s1] .
  finally show ?case
    using ledger_of_Cons[of c cs] by simp
qed

theorem ledger_append_only_witness:
  "run ex_calls (LowVolRanker_ctor True) = Inr ex_state
   \<and> comps_m ex_state = comps_m (LowVolRanker_ctor True) @ ledger_of ex_calls"
  using ledger_append_only[OF ex_run] ex_run by simp

end
